theory Spec2Isabelle
  imports Complex_Main "HOL-Library.Sublist"
begin

section \<open>The 3MF exporter of bekuto3d: data model\<close>

text \<open>
  This theory embeds \<^verbatim>\<open>packages/three-3mf-exporter/src/index.ts\<close>.
  JavaScript numbers are idealised as real numbers (no rounding, no NaN, no infinities).
  Record fields are global names in Isabelle, so fields that occur in several interfaces of
  the source carry a prefix: \<open>c_id\<close>, \<open>c_type\<close>, \<open>c_name\<close> for \<^verbatim>\<open>ComponentInfo\<close>,
  \<open>m_id\<close>, \<open>m_color\<close>, \<open>m_name\<close> for \<^verbatim>\<open>MaterialInfo\<close>, \<open>b_objectId\<close> for \<^verbatim>\<open>BuildItem\<close>, \<open>sc_objectId\<close> and
  \<open>sc_transform\<close> for the entries of \<^verbatim>\<open>subComponents\<close>, \<open>o_...\<close> for the scene node. The \<^verbatim>\<open>uuid\<close>
  fields are filled from \<^verbatim>\<open>Math.random\<close> and never read again; they are left out.
\<close>

text \<open>
  \<open>TypeError\<close> is the exception of reading a property of \<^verbatim>\<open>undefined\<close>. The recursions
  over the component table (\<^verbatim>\<open>getVerts\<close>, \<^verbatim>\<open>collect\<close>) follow ids and need not end on an
  arbitrary table; they take a bound on the call depth and give \<open>OutOfFuel\<close> beyond it.
\<close>

datatype error = TypeError | OutOfFuel

datatype Compression = none | standard

text \<open>A \<^verbatim>\<open>Matrix4\<close> is its \<^verbatim>\<open>elements\<close> array (column-major, indices 0 to 15).\<close>

type_synonym Matrix4 = "nat \<Rightarrow> real"

datatype Vector3 = Vector3 (vx: real) (vy: real) (vz: real)

datatype Color = Color (cr: real) (cg: real) (cb: real)

text \<open>
  A stored vertex \<^verbatim>\<open>{ x, y, z }\<close>. Reading a buffer attribute outside its array gives
  \<^verbatim>\<open>undefined\<close> for all three coordinates; \<open>None\<close> is that vertex.
\<close>

type_synonym Vertex = "Vector3 option"

record Triangle =
  v1 :: nat
  v2 :: nat
  v3 :: nat

record MaterialInfo =
  m_id :: nat
  m_color :: Color
  m_name :: string
  extruder :: nat

record SubComponent =
  sc_objectId :: int
  sc_transform :: Matrix4

datatype component_type = Mesh | Assembly

record ComponentInfo =
  c_id :: int
  c_type :: component_type
  vertices :: "Vertex list"
  triangles :: "Triangle list"
  material :: "MaterialInfo option"
  subComponents :: "SubComponent list"
  c_name :: string

record BuildItem =
  b_objectId :: int
  transformMatrix :: Matrix4

record PrintConfig =
  printer_name :: string
  filament :: string
  printableWidth :: real
  printableDepth :: real
  printableHeight :: real
  printableArea :: "string list"
  printerSettingsId :: string
  printSettingsId :: string
  compression :: Compression
  metadata :: "(string \<times> string) list"

text \<open>\<^verbatim>\<open>Partial<PrintConfig>\<close>: every field may be absent.\<close>

record PartialPrintConfig =
  p_printer_name :: "string option"
  p_filament :: "string option"
  p_printableWidth :: "real option"
  p_printableDepth :: "real option"
  p_printableHeight :: "real option"
  p_printableArea :: "string list option"
  p_printerSettingsId :: "string option"
  p_printSettingsId :: "string option"
  p_compression :: "Compression option"
  p_metadata :: "(string \<times> string) list option"

text \<open>The object literal that \<^verbatim>\<open>createProjectSettingsConfig\<close> hands to \<^verbatim>\<open>JSON.stringify\<close>.\<close>

record ProjectSettings =
  printable_area :: "string list"
  printable_height :: string
  bed_exclude_area :: "string list"
  filament_colour :: "string list"
  filament_settings_id :: "string list"
  filament_diameter :: "string list"
  filament_is_support :: "string list"
  printer_model :: string
  layer_height :: string
  wall_loops :: string
  sparse_infill_density :: string
  printer_settings_id :: string
  printer_variant :: string
  nozzle_diameter :: "string list"
  enable_support :: string
  support_type :: string
  print_settings_id :: string

text \<open>
  What the exporter takes from three.js and from the JavaScript runtime, none of it code of
  this repository: the matrix operations, the default gray made by \<^verbatim>\<open>color.set(0x808080)\<close>,
  the conversions of numbers to text, the clock and \<^verbatim>\<open>JSON.stringify\<close>. They are
  parameters of the model.
\<close>

record runtime =
  invert :: "Matrix4 \<Rightarrow> Matrix4"
  premultiply :: "Matrix4 \<Rightarrow> Matrix4 \<Rightarrow> Matrix4"
  applyMatrix4 :: "Vector3 \<Rightarrow> Matrix4 \<Rightarrow> Vector3"
  gray :: Color
  getHexString :: "Color \<Rightarrow> string"
  numberToString :: "real \<Rightarrow> string"
  toFixed5 :: "real \<Rightarrow> string"
  toISOString_now :: string
  JSON_stringify :: "ProjectSettings \<Rightarrow> string"

subsection \<open>The scene graph handed to the exporter\<close>

record BufferGeometry =
  g_position :: "Vector3 list"
  g_index :: "nat list option"

text \<open>A three.js material, as far as the exporter looks at it: its \<^verbatim>\<open>color\<close>, if it has one.\<close>

datatype Material = Material (mat_color: "Color option")

datatype mesh_material = NoMaterial | SingleMaterial Material | MaterialArray "Material list"

text \<open>
  A scene node. \<open>o_matrix\<close> and \<open>o_matrixWorld\<close> are the node's matrices as three.js leaves
  them after \<^verbatim>\<open>updateMatrix()\<close> and \<^verbatim>\<open>updateMatrixWorld(true)\<close>. Geometry and material are
  read for nodes of type \<^verbatim>\<open>'Mesh'\<close> only.
\<close>

datatype Object3D = Object3D
  (o_type: string) (o_name: string) (o_matrix: Matrix4) (o_matrixWorld: Matrix4)
  (o_children: "Object3D list") (o_geometry: BufferGeometry) (o_material: mesh_material)

text \<open>The three arrays that \<^verbatim>\<open>exportTo3MF\<close> fills, and the points collected for centering.\<close>

record export_state =
  components :: "ComponentInfo list"
  materials :: "MaterialInfo list"
  buildItems :: "BuildItem list"
  allVerticesWorld :: "Vector3 list"

subsection \<open>Integers in template literals\<close>

definition digit_char :: "nat \<Rightarrow> char" where
  "digit_char d = char_of (48 + d)"

function str_of_nat :: "nat \<Rightarrow> string" where
  "str_of_nat n = (if n < 10 then [digit_char n] else str_of_nat (n div 10) @ [digit_char (n mod 10)])"
  by pat_completeness auto
termination
  by (relation "measure (\<lambda>n. n)") auto

declare str_of_nat.simps [simp del]

definition str_of_int :: "int \<Rightarrow> string" where
  "str_of_int i = (if i < 0 then ''-'' @ str_of_nat (nat (- i)) else str_of_nat (nat i))"

section \<open>Geometry flattener and material resolver: \<^verbatim>\<open>processMesh\<close>\<close>

text \<open>Lines 120 to 136: look the colour up channel by channel, append a material if it is new.\<close>

definition sameColor :: "Color \<Rightarrow> MaterialInfo \<Rightarrow> bool" where
  "sameColor color m \<longleftrightarrow>
     cr (m_color m) = cr color \<and> cg (m_color m) = cg color \<and> cb (m_color m) = cb color"

definition resolveMaterial :: "string \<Rightarrow> Color \<Rightarrow> MaterialInfo list \<Rightarrow> MaterialInfo list \<times> MaterialInfo" where
  "resolveMaterial meshName color mats =
     (case find (sameColor color) mats of
        Some existingMaterial \<Rightarrow> (mats, existingMaterial)
      | None \<Rightarrow>
          (let extruder = length mats + 1;
               materialInfo = \<lparr> m_id = length mats + 1, m_color = color,
                 m_name = (if meshName \<noteq> [] then meshName @ ''_material''
                           else ''material_'' @ str_of_nat (length mats)),
                 extruder = extruder \<rparr>
           in (mats @ [materialInfo], materialInfo)))"

text \<open>Lines 107 to 137: no material at all gives \<^verbatim>\<open>null\<close>; a missing colour gives gray.\<close>

definition firstMaterial :: "mesh_material \<Rightarrow> Material option" where
  "firstMaterial mm =
     (case mm of
        NoMaterial \<Rightarrow> None
      | SingleMaterial m \<Rightarrow> Some m
      | MaterialArray ms \<Rightarrow> (case ms of [] \<Rightarrow> None | m # _ \<Rightarrow> Some m))"

definition materialColor :: "runtime \<Rightarrow> Material option \<Rightarrow> Color" where
  "materialColor L mat =
     (case mat of
        Some (Material (Some c)) \<Rightarrow> c
      | _ \<Rightarrow> gray L)"

definition processMaterial :: "runtime \<Rightarrow> Object3D \<Rightarrow> MaterialInfo list \<Rightarrow> MaterialInfo list \<times> MaterialInfo option" where
  "processMaterial L mesh mats =
     (if o_material mesh = NoMaterial then (mats, None)
      else
        (let color = materialColor L (firstMaterial (o_material mesh));
             (mats', materialInfo) = resolveMaterial (o_name mesh) color mats
         in (mats', Some materialInfo)))"

text \<open>
  Lines 151 to 166. \<open>fromBufferAttribute\<close> reads vertex \<open>vertexIndex\<close> of the position
  attribute; outside the array, or at an index that is itself \<^verbatim>\<open>undefined\<close>, the three
  coordinates are \<^verbatim>\<open>undefined\<close>. The world matrix is not applied.
\<close>

definition fromBufferAttribute :: "Vector3 list \<Rightarrow> nat option \<Rightarrow> Vertex" where
  "fromBufferAttribute positionAttr vertexIndex =
     (case vertexIndex of
        None \<Rightarrow> None
      | Some i \<Rightarrow> (if i < length positionAttr then Some (positionAttr ! i) else None))"

definition vertexKey :: "runtime \<Rightarrow> Vertex \<Rightarrow> string" where
  "vertexKey L vertex =
     (case vertex of
        None \<Rightarrow> ''undefined,undefined,undefined''
      | Some v \<Rightarrow> numberToString L (vx v) @ '','' @ numberToString L (vy v) @ '','' @ numberToString L (vz v))"

type_synonym vertex_state = "(string \<rightharpoonup> nat) \<times> Vertex list"

definition processVertex :: "runtime \<Rightarrow> Vector3 list \<Rightarrow> nat option \<Rightarrow> vertex_state \<Rightarrow> vertex_state \<times> nat" where
  "processVertex L positionAttr vertexIndex st =
     (let vertexMap = fst st; verts = snd st;
          vertex = fromBufferAttribute positionAttr vertexIndex;
          key = vertexKey L vertex
      in case vertexMap key of
           None \<Rightarrow> ((vertexMap(key \<mapsto> length verts), verts @ [vertex]), length verts)
         | Some i \<Rightarrow> ((vertexMap, verts), i))"

text \<open>
  Lines 168 to 185. Both loops step \<open>i\<close> by 3 up to \<open>count\<close>; they differ in where the vertex
  index of corner \<open>i\<close> comes from, which is the argument \<open>vertexIndexAt\<close>.
\<close>

function triangleLoop ::
  "runtime \<Rightarrow> Vector3 list \<Rightarrow> (nat \<Rightarrow> nat option) \<Rightarrow> nat \<Rightarrow> nat \<Rightarrow> vertex_state \<Rightarrow> Triangle list
     \<Rightarrow> vertex_state \<times> Triangle list" where
  "triangleLoop L positionAttr vertexIndexAt count i st tris =
     (if i < count then
        (let r1 = processVertex L positionAttr (vertexIndexAt i) st;
             r2 = processVertex L positionAttr (vertexIndexAt (i + 1)) (fst r1);
             r3 = processVertex L positionAttr (vertexIndexAt (i + 2)) (fst r2)
         in triangleLoop L positionAttr vertexIndexAt count (i + 3) (fst r3)
              (tris @ [\<lparr> v1 = snd r1, v2 = snd r2, v3 = snd r3 \<rparr>]))
      else (st, tris))"
  by pat_completeness auto
termination
  by (relation "measure (\<lambda>(L, positionAttr, vertexIndexAt, count, i, st, tris). count - i)") auto

declare triangleLoop.simps [simp del]

text \<open>\<^verbatim>\<open>indexAttr.getX(i)\<close>, and the plain index \<open>i\<close> of a geometry without index.\<close>

definition getX :: "nat list \<Rightarrow> nat \<Rightarrow> nat option" where
  "getX indexAttr i = (if i < length indexAttr then Some (indexAttr ! i) else None)"

definition vertexIndexAt :: "BufferGeometry \<Rightarrow> nat \<Rightarrow> nat option" where
  "vertexIndexAt geometry = (case g_index geometry of Some indexAttr \<Rightarrow> getX indexAttr | None \<Rightarrow> Some)"

definition cornerCount :: "BufferGeometry \<Rightarrow> nat" where
  "cornerCount geometry =
     (case g_index geometry of Some indexAttr \<Rightarrow> length indexAttr | None \<Rightarrow> length (g_position geometry))"

definition meshGeometry :: "runtime \<Rightarrow> BufferGeometry \<Rightarrow> vertex_state \<times> Triangle list" where
  "meshGeometry L geometry =
     triangleLoop L (g_position geometry) (vertexIndexAt geometry) (cornerCount geometry) 0 (Map.empty, []) []"

text \<open>The component that \<^verbatim>\<open>processMesh\<close> builds at lines 140 to 185 and pushes at line 187.\<close>

definition meshComponent :: "runtime \<Rightarrow> Object3D \<Rightarrow> MaterialInfo option \<Rightarrow> int \<Rightarrow> ComponentInfo" where
  "meshComponent L mesh materialInfo componentId =
     (let r = meshGeometry L (o_geometry mesh)
      in \<lparr> c_id = componentId, c_type = Mesh, vertices = snd (fst r), triangles = snd r,
           material = materialInfo, subComponents = [],
           c_name = (if o_name mesh \<noteq> [] then o_name mesh else ''Mesh-'' @ str_of_int componentId) \<rparr>)"

definition processMesh :: "runtime \<Rightarrow> Object3D \<Rightarrow> export_state \<Rightarrow> export_state \<times> int" where
  "processMesh L mesh st =
     (let r = processMaterial L mesh (materials st);
          componentId = int (length (components st)) + 1;
          component = meshComponent L mesh (snd r) componentId
      in (st\<lparr> materials := fst r, components := components st @ [component] \<rparr>, componentId))"

section \<open>Hierarchy composer: \<^verbatim>\<open>processNode\<close>\<close>

text \<open>
  Lines 192 to 221. \<open>processChildren\<close> is the \<^verbatim>\<open>node.children.forEach\<close> of the group branch,
  with the list \<^verbatim>\<open>subComponents\<close> it fills. The result \<open>- 1\<close> means that the node made no
  component.
\<close>

definition relMatrix :: "runtime \<Rightarrow> Object3D \<Rightarrow> Object3D \<Rightarrow> Matrix4" where
  "relMatrix L child node = premultiply L (o_matrixWorld child) (invert L (o_matrixWorld node))"

definition isGroupType :: "string \<Rightarrow> bool" where
  "isGroupType t \<longleftrightarrow> t = ''Group'' \<or> t = ''Object3D'' \<or> t = ''Scene''"

fun processNode :: "runtime \<Rightarrow> Object3D \<Rightarrow> export_state \<Rightarrow> export_state \<times> int"
  and processChildren ::
    "runtime \<Rightarrow> Object3D \<Rightarrow> Object3D list \<Rightarrow> export_state \<Rightarrow> SubComponent list
       \<Rightarrow> export_state \<times> SubComponent list" where
  "processNode L (Object3D t nm m mw cs g mt) st =
     (if t = ''Mesh'' then processMesh L (Object3D t nm m mw cs g mt) st
      else if isGroupType t then
        (let (st', subs) = processChildren L (Object3D t nm m mw cs g mt) cs st []
         in if length subs > 0 then
              (let assemblyId = int (length (components st')) + 1
               in (st'\<lparr> components := components st' @
                     [\<lparr> c_id = assemblyId, c_type = Assembly, vertices = [], triangles = [],
                        material = None, subComponents = subs,
                        c_name = (if nm \<noteq> [] then nm else ''Group-'' @ str_of_int assemblyId) \<rparr>] \<rparr>,
                   assemblyId))
            else (st', - 1))
      else (st, - 1))"
| "processChildren L node [] st subs = (st, subs)"
| "processChildren L node (child # rest) st subs =
     (let (st', subId) = processNode L child st
      in if subId \<noteq> - 1 then
           processChildren L node rest st' (subs @ [\<lparr> sc_objectId = subId, sc_transform = relMatrix L child node \<rparr>])
         else processChildren L node rest st' subs)"

section \<open>Top-level traversal: lines 226 to 257 of \<^verbatim>\<open>exportTo3MF\<close>\<close>

definition findComponent :: "ComponentInfo list \<Rightarrow> int \<Rightarrow> ComponentInfo option" where
  "findComponent comps i = find (\<lambda>c. c_id c = i) comps"

text \<open>\<^verbatim>\<open>flatMap\<close> with a callback that may throw: the first exception ends it.\<close>

fun flatMapE :: "('a \<Rightarrow> error + 'b list) \<Rightarrow> 'a list \<Rightarrow> error + 'b list" where
  "flatMapE f [] = Inr []"
| "flatMapE f (x # xs) =
     (case f x of
        Inl e \<Rightarrow> Inl e
      | Inr ys \<Rightarrow> (case flatMapE f xs of Inl e \<Rightarrow> Inl e | Inr zs \<Rightarrow> Inr (ys @ zs)))"

text \<open>\<^verbatim>\<open>new Vector3(v.x, v.y, v.z)\<close>: an \<^verbatim>\<open>undefined\<close> argument takes the default 0.\<close>

definition toVector3 :: "Vertex \<Rightarrow> Vector3" where
  "toVector3 v = (case v of None \<Rightarrow> Vector3 0 0 0 | Some p \<Rightarrow> p)"

fun getVerts :: "runtime \<Rightarrow> ComponentInfo list \<Rightarrow> nat \<Rightarrow> ComponentInfo \<Rightarrow> error + Vector3 list" where
  "getVerts L comps 0 c = Inl OutOfFuel"
| "getVerts L comps (Suc fuel) c =
     (if c_type c = Assembly then
        flatMapE (\<lambda>sc.
          case findComponent comps (sc_objectId sc) of
            None \<Rightarrow> Inl TypeError
          | Some subComp \<Rightarrow>
              (case getVerts L comps fuel subComp of
                 Inl e \<Rightarrow> Inl e
               | Inr vs \<Rightarrow> Inr (map (\<lambda>v. applyMatrix4 L v (sc_transform sc)) vs)))
          (subComponents c)
      else Inr (map toVector3 (vertices c)))"

fun rootLoop :: "runtime \<Rightarrow> nat \<Rightarrow> Object3D list \<Rightarrow> export_state \<Rightarrow> error + export_state" where
  "rootLoop L fuel [] st = Inr st"
| "rootLoop L fuel (child # rest) st =
     (let (st1, childId) = processNode L child st
      in if childId \<noteq> - 1 then
           (let itemMatrix = o_matrix child
            in case findComponent (components st1) childId of
                 None \<Rightarrow> Inl TypeError
               | Some targetComp \<Rightarrow>
                   (case getVerts L (components st1) fuel targetComp of
                      Inl e \<Rightarrow> Inl e
                    | Inr verts \<Rightarrow>
                        rootLoop L fuel rest
                          (st1\<lparr> allVerticesWorld :=
                                  allVerticesWorld st1 @ map (\<lambda>vec. applyMatrix4 L vec itemMatrix) verts,
                                buildItems :=
                                  buildItems st1 @ [\<lparr> b_objectId = childId, transformMatrix = itemMatrix \<rparr>] \<rparr>)))
         else rootLoop L fuel rest st1)"

definition rootChildren :: "Object3D \<Rightarrow> Object3D list" where
  "rootChildren object = (if o_type object = ''Scene'' then o_children object else [object])"

definition emptyState :: export_state where
  "emptyState = \<lparr> components = [], materials = [], buildItems = [], allVerticesWorld = [] \<rparr>"

definition composeScene :: "runtime \<Rightarrow> nat \<Rightarrow> Object3D \<Rightarrow> error + export_state" where
  "composeScene L fuel object = rootLoop L fuel (rootChildren object) emptyState"

section \<open>Build layout: lines 259 to 271\<close>

text \<open>
  \<open>min\<close> starts at \<^verbatim>\<open>Infinity\<close> and \<open>max\<close> at \<^verbatim>\<open>-Infinity\<close>, so after the first point both are
  that point; the reals have no infinities, and the fold starts there. All points are folded,
  as in the source.
\<close>

definition boundsStep :: "Vector3 \<Rightarrow> Vector3 \<times> Vector3 \<Rightarrow> Vector3 \<times> Vector3" where
  "boundsStep v acc =
     (Vector3 (min (vx (fst acc)) (vx v)) (min (vy (fst acc)) (vy v)) (min (vz (fst acc)) (vz v)),
      Vector3 (max (vx (snd acc)) (vx v)) (max (vy (snd acc)) (vy v)) (max (vz (snd acc)) (vz v)))"

definition bounds :: "Vector3 list \<Rightarrow> Vector3 \<times> Vector3" where
  "bounds vs =
     (case vs of
        [] \<Rightarrow> (Vector3 0 0 0, Vector3 0 0 0)
      | v # _ \<Rightarrow> fold boundsStep vs (v, v))"

definition centeringShift :: "PrintConfig \<Rightarrow> Vector3 list \<Rightarrow> Vector3" where
  "centeringShift printConfig vs =
     (let bmin = fst (bounds vs); bmax = snd (bounds vs);
          modelCenter = Vector3 ((vx bmin + vx bmax) / 2) ((vy bmin + vy bmax) / 2) ((vz bmin + vz bmax) / 2);
          bedCenter = Vector3 (printableWidth printConfig / 2) (printableDepth printConfig / 2) 0
      in Vector3 (vx bedCenter - vx modelCenter) (vy bedCenter - vy modelCenter) (vz bedCenter - vz bmin))"

section \<open>Document emitters\<close>

definition nl :: string where
  "nl = [CHR 0x0A]"

fun join :: "string \<Rightarrow> string list \<Rightarrow> string" where
  "join sep [] = []"
| "join sep [x] = x"
| "join sep (x # y # ys) = x @ sep @ join sep (y # ys)"

text \<open>\<^verbatim>\<open>map\<close> with a callback that may throw.\<close>

fun mapE :: "('a \<Rightarrow> error + 'b) \<Rightarrow> 'a list \<Rightarrow> error + 'b list" where
  "mapE f [] = Inr []"
| "mapE f (x # xs) =
     (case f x of
        Inl e \<Rightarrow> Inl e
      | Inr y \<Rightarrow> (case mapE f xs of Inl e \<Rightarrow> Inl e | Inr ys \<Rightarrow> Inr (y # ys)))"

subsection \<open>\<^verbatim>\<open>createMainModelXML\<close>\<close>

text \<open>
  The twelve numbers of a 3MF transform, taken from a column-major \<^verbatim>\<open>elements\<close> array. For a
  build item the last three are the translation plus the centering shift (lines 322 to 325).
\<close>

definition componentTransform :: "Matrix4 \<Rightarrow> real list" where
  "componentTransform e = [e 0, e 1, e 2, e 4, e 5, e 6, e 8, e 9, e 10, e 12, e 13, e 14]"

definition itemTransform :: "Matrix4 \<Rightarrow> Vector3 \<Rightarrow> real list" where
  "itemTransform e shift =
     (let tx = e 12 + vx shift; ty = e 13 + vy shift; tz = e 14 + vz shift
      in [e 0, e 1, e 2, e 4, e 5, e 6, e 8, e 9, e 10, tx, ty, tz])"

definition tStr :: "runtime \<Rightarrow> real list \<Rightarrow> string" where
  "tStr L row = join '' '' (map (toFixed5 L) row)"

definition subComponentXML :: "runtime \<Rightarrow> SubComponent \<Rightarrow> string" where
  \<open>subComponentXML L sc =
     ''<component objectid="'' @ str_of_int (sc_objectId sc) @ ''" transform="''
       @ tStr L (componentTransform (sc_transform sc)) @ ''" />''\<close>

text \<open>\<^verbatim>\<open>v.x.toFixed(5)\<close> on a vertex whose coordinates are \<^verbatim>\<open>undefined\<close> throws.\<close>

definition vertexXML :: "runtime \<Rightarrow> Vertex \<Rightarrow> error + string" where
  \<open>vertexXML L v =
     (case v of
        None \<Rightarrow> Inl TypeError
      | Some p \<Rightarrow> Inr (''<vertex x="'' @ toFixed5 L (vx p) @ ''" y="'' @ toFixed5 L (vy p)
                        @ ''" z="'' @ toFixed5 L (vz p) @ ''" />''))\<close>

definition triangleXML :: "Triangle \<Rightarrow> string" where
  \<open>triangleXML t =
     ''<triangle v1="'' @ str_of_nat (v1 t) @ ''" v2="'' @ str_of_nat (v2 t)
       @ ''" v3="'' @ str_of_nat (v3 t) @ ''" />''\<close>

definition resourceXML :: "runtime \<Rightarrow> ComponentInfo \<Rightarrow> error + string" where
  \<open>resourceXML L c =
     (if c_type c = Assembly then
        (let comps = concat (map (subComponentXML L) (subComponents c))
         in Inr (''<object id="'' @ str_of_int (c_id c) @ ''" type="model" name="'' @ c_name c
                  @ ''"><components>'' @ comps @ ''</components></object>''))
      else
        (case mapE (vertexXML L) (vertices c) of
           Inl e \<Rightarrow> Inl e
         | Inr vs \<Rightarrow>
             (let vXml = join '' '' vs;
                  tXml = join '' '' (map triangleXML (triangles c))
              in Inr (''<object id="'' @ str_of_int (c_id c) @ ''" type="model" name="'' @ c_name c
                       @ ''"><mesh><vertices>'' @ vXml @ ''</vertices><triangles>'' @ tXml
                       @ ''</triangles></mesh></object>''))))\<close>

definition itemXML :: "runtime \<Rightarrow> Vector3 \<Rightarrow> BuildItem \<Rightarrow> string" where
  \<open>itemXML L shift item =
     ''<item objectid="'' @ str_of_int (b_objectId item) @ ''" transform="''
       @ tStr L (itemTransform (transformMatrix item) shift) @ ''" printable="1" />''\<close>

definition metadataXML :: "runtime \<Rightarrow> PrintConfig \<Rightarrow> string list" where
  \<open>metadataXML L printConfig =
     (''<metadata name="CreationDate">'' @ toISOString_now L @ ''</metadata>'')
       # map (\<lambda>(key, val). ''<metadata name="'' @ key @ ''">'' @ val @ ''</metadata>'')
           (metadata printConfig)\<close>

definition createMainModelXML ::
  "runtime \<Rightarrow> ComponentInfo list \<Rightarrow> BuildItem list \<Rightarrow> Vector3 \<Rightarrow> PrintConfig \<Rightarrow> error + string" where
  \<open>createMainModelXML L comps items shift printConfig =
     (case mapE (resourceXML L) comps of
        Inl e \<Rightarrow> Inl e
      | Inr rs \<Rightarrow>
          (let resources = join nl rs;
               build = join nl (map (itemXML L shift) items)
           in Inr (''<?xml version="1.0" encoding="UTF-8"?>'' @ nl
                @ ''<model unit="millimeter" xml:lang="en-US" xmlns="http://schemas.microsoft.com/3dmanufacturing/core/2015/02" xmlns:slic3rpe="http://schemas.slic3r.org/3mf/2017/06" xmlns:p="http://schemas.microsoft.com/3dmanufacturing/production/2015/06" requiredextensions="p">'' @ nl
                @ ''    '' @ join (nl @ ''    '') (metadataXML L printConfig) @ nl
                @ ''    <resources>'' @ nl
                @ resources @ nl
                @ ''    </resources>'' @ nl
                @ ''    <build>'' @ nl
                @ build @ nl
                @ ''    </build>'' @ nl
                @ ''</model>'')))\<close>

subsection \<open>\<^verbatim>\<open>createModelSettingsXML\<close>\<close>

fun collect :: "ComponentInfo list \<Rightarrow> nat \<Rightarrow> ComponentInfo \<Rightarrow> error + ComponentInfo list" where
  "collect comps 0 c = Inl OutOfFuel"
| "collect comps (Suc fuel) c =
     (if c_type c = Mesh then Inr [c]
      else flatMapE (\<lambda>sc.
             case findComponent comps (sc_objectId sc) of
               None \<Rightarrow> Inl TypeError
             | Some x \<Rightarrow> collect comps fuel x)
             (subComponents c))"

definition partXML :: "ComponentInfo \<Rightarrow> string" where
  \<open>partXML p =
     (let extruder = (case material p of Some m \<Rightarrow> extruder m | None \<Rightarrow> 1)
      in ''    <part id="'' @ str_of_int (c_id p) @ ''" subtype="normal_part">'' @ nl
       @ ''      <metadata key="name" value="'' @ c_name p @ ''"/>'' @ nl
       @ ''      <metadata key="extruder" value="'' @ str_of_nat extruder @ ''"/>'' @ nl
       @ ''      <mesh_stat edges_fixed="0" degenerate_facets="0" facets_removed="0" facets_reversed="0" backwards_edges="0"/>'' @ nl
       @ ''    </part>'')\<close>

text \<open>
  The body of \<^verbatim>\<open>buildItems.forEach\<close> at lines 352 to 388, on the three strings
  \<open>(objectsXml, instancesXml, assembleXml)\<close>.
\<close>

fun settingsLoop ::
  "ComponentInfo list \<Rightarrow> nat \<Rightarrow> BuildItem list \<Rightarrow> nat \<Rightarrow> string \<times> string \<times> string
     \<Rightarrow> error + string \<times> string \<times> string" where
  \<open>settingsLoop comps fuel [] index acc = Inr acc\<close>
| \<open>settingsLoop comps fuel (item # rest) index (objectsXml, instancesXml, assembleXml) =
     (let objId = b_objectId item
      in case findComponent comps objId of
           None \<Rightarrow> Inl TypeError
         | Some component \<Rightarrow>
             (case collect comps fuel component of
                Inl e \<Rightarrow> Inl e
              | Inr parts \<Rightarrow>
                  (let partsXml = join nl (map partXML parts)
                   in settingsLoop comps fuel rest (index + 1)
                        (objectsXml
                           @ ''  <object id="'' @ str_of_int objId @ ''">'' @ nl
                           @ ''    <metadata key="name" value="'' @ c_name component @ ''"/>'' @ nl
                           @ ''    <metadata key="extruder" value="1"/>'' @ nl
                           @ ''    <metadata key="thumbnail_file" value=""/>'' @ nl
                           @ partsXml @ nl
                           @ ''  </object>'' @ nl,
                         instancesXml
                           @ ''    <model_instance>'' @ nl
                           @ ''      <metadata key="object_id" value="'' @ str_of_int objId @ ''"/>'' @ nl
                           @ ''      <metadata key="instance_id" value="0"/>'' @ nl
                           @ ''      <metadata key="identify_id" value="'' @ str_of_nat (index + 1) @ ''"/>'' @ nl
                           @ ''    </model_instance>'' @ nl,
                         assembleXml
                           @ ''    <assemble_item object_id="'' @ str_of_int objId
                           @ ''" instance_id="0" offset="0 0 0"/>'' @ nl))))\<close>

definition createModelSettingsXML :: "ComponentInfo list \<Rightarrow> nat \<Rightarrow> BuildItem list \<Rightarrow> error + string" where
  \<open>createModelSettingsXML comps fuel items =
     (case settingsLoop comps fuel items 0 ([], [], []) of
        Inl e \<Rightarrow> Inl e
      | Inr (objectsXml, instancesXml, assembleXml) \<Rightarrow>
          Inr (''<?xml version="1.0" encoding="UTF-8"?>'' @ nl
            @ ''<config>'' @ nl
            @ objectsXml @ nl
            @ ''  <plate>'' @ nl
            @ ''    <metadata key="plater_id" value="1"/>'' @ nl
            @ ''    <metadata key="plater_name" value="plate-1"/>'' @ nl
            @ instancesXml @ nl
            @ ''  </plate>'' @ nl
            @ ''  <assemble>'' @ nl
            @ assembleXml @ nl
            @ ''  </assemble>'' @ nl
            @ ''</config>''))\<close>

subsection \<open>\<^verbatim>\<open>createProjectSettingsConfig\<close>\<close>

text \<open>Lines 414 to 416: pad the list of colours, a fresh array, up to two entries.\<close>

function padColors :: "string list \<Rightarrow> string list" where
  "padColors colors = (if length colors < 2 then padColors (colors @ [''#FFFFFF'']) else colors)"
  by pat_completeness auto
termination
  by (relation "measure (\<lambda>colors. 2 - length colors)") auto

declare padColors.simps [simp del]

definition materialColors :: "runtime \<Rightarrow> MaterialInfo list \<Rightarrow> string list" where
  "materialColors L mats = map (\<lambda>m. ''#'' @ getHexString L (m_color m)) mats"

definition projectSettings :: "runtime \<Rightarrow> MaterialInfo list \<Rightarrow> PrintConfig \<Rightarrow> ProjectSettings" where
  "projectSettings L mats printConfig =
     (let colors = padColors (materialColors L mats)
      in \<lparr> printable_area = printableArea printConfig,
           printable_height = numberToString L (printableHeight printConfig),
           bed_exclude_area = [],
           filament_colour = colors,
           filament_settings_id = replicate (length colors) (filament printConfig),
           filament_diameter = replicate (length colors) ''1.75'',
           filament_is_support = replicate (length colors) ''0'',
           printer_model = printer_name printConfig,
           layer_height = ''0.2'',
           wall_loops = ''2'',
           sparse_infill_density = ''15%'',
           printer_settings_id = printerSettingsId printConfig,
           printer_variant = ''0.4'',
           nozzle_diameter = [''0.4''],
           enable_support = ''0'',
           support_type = ''normal(auto)'',
           print_settings_id = printSettingsId printConfig \<rparr>)"

definition createProjectSettingsConfig :: "runtime \<Rightarrow> MaterialInfo list \<Rightarrow> PrintConfig \<Rightarrow> string" where
  "createProjectSettingsConfig L mats printConfig = JSON_stringify L (projectSettings L mats printConfig)"

subsection \<open>The fixed descriptors\<close>

definition relationshipsXML :: string where
  \<open>relationshipsXML =
     ''<?xml version="1.0" encoding="UTF-8"?>'' @ nl
     @ ''<Relationships xmlns="http://schemas.openxmlformats.org/package/2006/relationships">'' @ nl
     @ ''  <Relationship Id="rel-1" Target="/3D/3dmodel.model" Type="http://schemas.microsoft.com/3dmanufacturing/2013/01/3dmodel"/>'' @ nl
     @ ''  <Relationship Id="rel-2" Target="/Metadata/model_settings.config" Type="http://schemas.microsoft.com/3dmanufacturing/2013/01/3dmodel"/>'' @ nl
     @ ''  <Relationship Id="rel-3" Target="/Metadata/project_settings.config" Type="http://schemas.microsoft.com/3dmanufacturing/2013/01/3dmodel"/>'' @ nl
     @ ''</Relationships>''\<close>

definition contentTypesXML :: string where
  \<open>contentTypesXML =
     ''<?xml version="1.0" encoding="UTF-8"?>'' @ nl
     @ ''<Types xmlns="http://schemas.openxmlformats.org/package/2006/content-types">'' @ nl
     @ ''  <Default Extension="rels" ContentType="application/vnd.openxmlformats-package.relationships+xml" />'' @ nl
     @ ''  <Default Extension="model" ContentType="application/vnd.ms-package.3dmanufacturing-3dmodel+xml" />'' @ nl
     @ ''  <Default Extension="config" ContentType="application/vnd.ms-package.3dmanufacturing-3dmodel+xml" />'' @ nl
     @ ''  <Default Extension="png" ContentType="image/png" />'' @ nl
     @ ''  <Default Extension="gcode" ContentType="text/x.gcode"/>'' @ nl
     @ ''</Types>''\<close>

section \<open>Package assembler: \<^verbatim>\<open>exportTo3MF\<close>\<close>

definition defaultPrintConfig :: PrintConfig where
  "defaultPrintConfig =
     \<lparr> printer_name = ''Bambu Lab A1'',
       filament = ''Bambu PLA Basic @BBL A1'',
       printableWidth = 256,
       printableDepth = 256,
       printableHeight = 256,
       printableArea = [''0x0'', ''256x0'', ''256x256'', ''0x256''],
       printerSettingsId = ''Bambu Lab A1 0.4 nozzle'',
       printSettingsId = ''0.20mm Standard @BBL A1'',
       compression = standard,
       metadata = [(''Application'', ''BambuStudio-02.04.00.70''), (''ApplicationTitle'', ''Exported 3D Model'')] \<rparr>"

text \<open>\<^verbatim>\<open>Object.assign({}, defaultPrintConfig, printJobConfig)\<close>: the fields given replace the defaults.\<close>

definition orDefault :: "'a option \<Rightarrow> 'a \<Rightarrow> 'a" where
  "orDefault given d = (case given of Some x \<Rightarrow> x | None \<Rightarrow> d)"

definition mergeConfig :: "PartialPrintConfig \<Rightarrow> PrintConfig" where
  "mergeConfig j =
     \<lparr> printer_name = orDefault (p_printer_name j) (printer_name defaultPrintConfig),
       filament = orDefault (p_filament j) (filament defaultPrintConfig),
       printableWidth = orDefault (p_printableWidth j) (printableWidth defaultPrintConfig),
       printableDepth = orDefault (p_printableDepth j) (printableDepth defaultPrintConfig),
       printableHeight = orDefault (p_printableHeight j) (printableHeight defaultPrintConfig),
       printableArea = orDefault (p_printableArea j) (printableArea defaultPrintConfig),
       printerSettingsId = orDefault (p_printerSettingsId j) (printerSettingsId defaultPrintConfig),
       printSettingsId = orDefault (p_printSettingsId j) (printSettingsId defaultPrintConfig),
       compression = orDefault (p_compression j) (compression defaultPrintConfig),
       metadata = orDefault (p_metadata j) (metadata defaultPrintConfig) \<rparr>"

definition JSZipCompressionMap :: "Compression \<Rightarrow> string" where
  "JSZipCompressionMap c = (case c of standard \<Rightarrow> ''DEFLATE'' | none \<Rightarrow> ''STORE'')"

text \<open>
  The archive is the list of \<^verbatim>\<open>zip.file(path, content)\<close> calls in the order they are made
  (the five paths are distinct, so no call replaces an earlier entry), with the options
  given to \<^verbatim>\<open>generateAsync\<close>.
\<close>

record Package =
  entries :: "(string \<times> string) list"
  mimeType :: string
  pkg_compression :: string

definition zip_file :: "string \<Rightarrow> string \<Rightarrow> (string \<times> string) list \<Rightarrow> (string \<times> string) list" where
  "zip_file path content archive = archive @ [(path, content)]"

definition exportTo3MF :: "runtime \<Rightarrow> nat \<Rightarrow> Object3D \<Rightarrow> PartialPrintConfig \<Rightarrow> error + Package" where
  "exportTo3MF L fuel object printJobConfig =
     (let printConfig = mergeConfig printJobConfig;
          compression = JSZipCompressionMap (compression printConfig)
      in case composeScene L fuel object of
           Inl e \<Rightarrow> Inl e
         | Inr st \<Rightarrow>
             (let shift = centeringShift printConfig (allVerticesWorld st)
              in case createMainModelXML L (components st) (buildItems st) shift printConfig of
                   Inl e \<Rightarrow> Inl e
                 | Inr mainModelXml \<Rightarrow>
                     (case createModelSettingsXML (components st) fuel (buildItems st) of
                        Inl e \<Rightarrow> Inl e
                      | Inr modelSettingsXml \<Rightarrow>
                          (let projectSettingsConfig = createProjectSettingsConfig L (materials st) printConfig;
                               archive = zip_file ''[Content_Types].xml'' contentTypesXML
                                      (zip_file ''Metadata/project_settings.config'' projectSettingsConfig
                                        (zip_file ''Metadata/model_settings.config'' modelSettingsXml
                                          (zip_file ''3D/3dmodel.model'' mainModelXml
                                            (zip_file ''_rels/.rels'' relationshipsXML []))))
                           in Inr \<lparr> entries = archive,
                                    mimeType = ''application/vnd.ms-package.3dmanufacturing-3dmodel+xml'',
                                    pkg_compression = compression \<rparr>))))"

section \<open>Notions used in the statements and proofs\<close>

text \<open>
  The vertex map and the vertex list of \<^verbatim>\<open>processMesh\<close> agree: the map sends the key of every
  stored vertex to its index, and nothing else.
\<close>

definition vinv :: "runtime \<Rightarrow> vertex_state \<Rightarrow> bool" where
  "vinv L st \<longleftrightarrow>
     (\<forall>k i. fst st k = Some i \<longrightarrow> i < length (snd st) \<and> vertexKey L (snd st ! i) = k) \<and>
     (\<forall>i < length (snd st). fst st (vertexKey L (snd st ! i)) = Some i)"

text \<open>The corners of the triangles in order, and the vertex that corner \<open>n\<close> of the geometry reads.\<close>

definition triangleCorners :: "Triangle \<Rightarrow> nat list" where
  "triangleCorners t = [v1 t, v2 t, v3 t]"

definition cornerIndices :: "Triangle list \<Rightarrow> nat list" where
  "cornerIndices tris = concat (map triangleCorners tris)"

definition cornerVertex :: "Vector3 list \<Rightarrow> (nat \<Rightarrow> nat option) \<Rightarrow> nat \<Rightarrow> Vertex" where
  "cornerVertex positionAttr ixAt n = fromBufferAttribute positionAttr (ixAt n)"

definition loop_inv ::
  "runtime \<Rightarrow> Vector3 list \<Rightarrow> (nat \<Rightarrow> nat option) \<Rightarrow> nat \<Rightarrow> vertex_state \<Rightarrow> Triangle list \<Rightarrow> bool" where
  "loop_inv L pos ixAt i st tris \<longleftrightarrow>
     vinv L st \<and> length (cornerIndices tris) = i \<and>
     (\<forall>n<i. fst st (vertexKey L (cornerVertex pos ixAt n)) = Some (cornerIndices tris ! n)) \<and>
     set (snd st) \<subseteq> cornerVertex pos ixAt ` {..<i}"

text \<open>
  What a call of \<^verbatim>\<open>processNode\<close> and a run of the \<^verbatim>\<open>forEach\<close> over the children leave behind,
  whatever the state they start in.
\<close>

definition node_post :: "export_state \<Rightarrow> export_state \<Rightarrow> int \<Rightarrow> bool" where
  "node_post st st' r \<longleftrightarrow>
     prefix (components st) (components st') \<and> prefix (materials st) (materials st') \<and>
     buildItems st' = buildItems st \<and> allVerticesWorld st' = allVerticesWorld st \<and>
     (r = - 1 \<longrightarrow> st' = st) \<and>
     (r \<noteq> - 1 \<longrightarrow> r = int (length (components st')) \<and> length (components st) < length (components st'))"

definition children_post ::
  "export_state \<Rightarrow> SubComponent list \<Rightarrow> export_state \<Rightarrow> SubComponent list \<Rightarrow> bool" where
  "children_post st subs st' subs' \<longleftrightarrow>
     prefix (components st) (components st') \<and> prefix (materials st) (materials st') \<and>
     buildItems st' = buildItems st \<and> allVerticesWorld st' = allVerticesWorld st \<and>
     prefix subs subs' \<and> (subs' = subs \<longrightarrow> st' = st) \<and>
     (\<forall>sc \<in> set subs' - set subs. int (length (components st)) < sc_objectId sc \<and>
        sc_objectId sc \<le> int (length (components st')))"

text \<open>
  A component at position \<open>k\<close> of the table is in order when its id is \<open>k + 1\<close>, its
  sub-components point to earlier ids, its triangles point into its own vertices, and the
  fields of the other kind are empty.
\<close>

definition goodComponent :: "nat \<Rightarrow> ComponentInfo \<Rightarrow> bool" where
  "goodComponent k c \<longleftrightarrow>
     c_id c = int k + 1 \<and>
     (\<forall>sc \<in> set (subComponents c). 1 \<le> sc_objectId sc \<and> sc_objectId sc < c_id c) \<and>
     (\<forall>t \<in> set (triangles c).
        v1 t < length (vertices c) \<and> v2 t < length (vertices c) \<and> v3 t < length (vertices c)) \<and>
     (c_type c = Mesh \<longrightarrow> subComponents c = []) \<and>
     (c_type c = Assembly \<longrightarrow> vertices c = [] \<and> triangles c = [] \<and> subComponents c \<noteq> [])"

definition newGood :: "export_state \<Rightarrow> export_state \<Rightarrow> bool" where
  "newGood st st' \<longleftrightarrow>
     (\<forall>k. length (components st) \<le> k \<and> k < length (components st') \<longrightarrow>
        goodComponent k (components st' ! k))"

definition goodTable :: "ComponentInfo list \<Rightarrow> bool" where
  "goodTable comps \<longleftrightarrow> (\<forall>k < length comps. goodComponent k (comps ! k))"

text \<open>The number of nodes of a subtree bounds the number of components it can add.\<close>

fun nodeCount :: "Object3D \<Rightarrow> nat" where
  "nodeCount (Object3D t nm m mw cs g mt) = Suc (sum_list (map nodeCount cs))"

text \<open>What the top-level \<^verbatim>\<open>forEach\<close> leaves behind when it does not throw.\<close>

definition root_post :: "export_state \<Rightarrow> export_state \<Rightarrow> bool" where
  "root_post st st' \<longleftrightarrow>
     prefix (components st) (components st') \<and> prefix (materials st) (materials st') \<and>
     newGood st st' \<and>
     (\<exists>items. buildItems st' = buildItems st @ items \<and>
        (\<forall>b \<in> set items. int (length (components st)) < b_objectId b \<and>
           b_objectId b \<le> int (length (components st'))))"

text \<open>
  The material list is in order when its colours are pairwise different and entry \<open>k\<close> has
  extruder and id \<open>k + 1\<close>; the tables share materials when moreover every material that a
  component refers to is an entry of the list.
\<close>

definition materialsGood :: "MaterialInfo list \<Rightarrow> bool" where
  "materialsGood mats \<longleftrightarrow>
     distinct (map m_color mats) \<and>
     (\<forall>k < length mats. extruder (mats ! k) = k + 1 \<and> m_id (mats ! k) = k + 1)"

definition materialsShared :: "export_state \<Rightarrow> bool" where
  "materialsShared st \<longleftrightarrow>
     materialsGood (materials st) \<and>
     (\<forall>c \<in> set (components st). \<forall>m. material c = Some m \<longrightarrow> m \<in> set (materials st))"

section \<open>Sample inputs\<close>

text \<open>
  A runtime for concrete runs: matrices that only translate, and numbers printed as their
  integer part. The sample scenes below use integer coordinates and the identity matrix.
\<close>

definition sampleRuntime :: runtime where
  "sampleRuntime =
     \<lparr> invert = (\<lambda>m i. if i = 12 \<or> i = 13 \<or> i = 14 then - m i else m i),
       premultiply = (\<lambda>a b i. if i = 12 \<or> i = 13 \<or> i = 14 then a i + b i else a i),
       applyMatrix4 = (\<lambda>v m. Vector3 (vx v + m 12) (vy v + m 13) (vz v + m 14)),
       gray = Color (128 / 255) (128 / 255) (128 / 255),
       getHexString = (\<lambda>c. if c = Color 1 0 0 then ''ff0000'' else ''808080''),
       numberToString = (\<lambda>x. str_of_int \<lfloor>x\<rfloor>),
       toFixed5 = (\<lambda>x. str_of_int \<lfloor>x\<rfloor> @ ''.00000''),
       toISOString_now = ''2026-01-01T00:00:00.000Z'',
       JSON_stringify = (\<lambda>p. join '','' (filament_colour p)) \<rparr>"

definition identityMatrix :: Matrix4 where
  "identityMatrix = (\<lambda>i. if i = 0 \<or> i = 5 \<or> i = 10 \<or> i = 15 then 1 else 0)"

definition noGeometry :: BufferGeometry where
  "noGeometry = \<lparr> g_position = [], g_index = None \<rparr>"

text \<open>A unit square of two triangles that share two corners, indexed and red.\<close>

definition squareMesh :: Object3D where
  "squareMesh = Object3D ''Mesh'' ''Square'' identityMatrix identityMatrix []
     \<lparr> g_position = [Vector3 0 0 0, Vector3 1 0 0, Vector3 1 1 0, Vector3 0 1 0],
       g_index = Some [0, 1, 2, 0, 2, 3] \<rparr>
     (SingleMaterial (Material (Some (Color 1 0 0))))"

text \<open>One triangle without index and without name; its material has no colour.\<close>

definition triangleMesh :: Object3D where
  "triangleMesh = Object3D ''Mesh'' [] identityMatrix identityMatrix []
     \<lparr> g_position = [Vector3 0 0 1, Vector3 2 0 1, Vector3 0 2 1], g_index = None \<rparr>
     (SingleMaterial (Material None))"

definition sampleGroup :: Object3D where
  "sampleGroup = Object3D ''Group'' ''Pair'' identityMatrix identityMatrix [squareMesh, triangleMesh]
     noGeometry NoMaterial"

text \<open>A scene with a node of a type the exporter does not know and a group without children.\<close>

definition lineNode :: Object3D where
  "lineNode = Object3D ''Line'' ''Edge'' identityMatrix identityMatrix [] noGeometry NoMaterial"

definition emptyGroup :: Object3D where
  "emptyGroup = Object3D ''Group'' ''Nothing'' identityMatrix identityMatrix [] noGeometry NoMaterial"

definition sampleScene :: Object3D where
  "sampleScene = Object3D ''Scene'' [] identityMatrix identityMatrix
     [lineNode, sampleGroup, emptyGroup] noGeometry NoMaterial"

definition noOverrides :: PartialPrintConfig where
  "noOverrides =
     \<lparr> p_printer_name = None, p_filament = None, p_printableWidth = None, p_printableDepth = None,
       p_printableHeight = None, p_printableArea = None, p_printerSettingsId = None,
       p_printSettingsId = None, p_compression = None, p_metadata = None \<rparr>"

text \<open>
  A geometry whose corners all read inside the buffers: the number of corners is a multiple
  of 3 and every index points into the position attribute. A scene is well formed when the
  meshes that the traversal reaches are.
\<close>

definition wellFormedGeometry :: "BufferGeometry \<Rightarrow> bool" where
  "wellFormedGeometry g \<longleftrightarrow>
     cornerCount g mod 3 = 0 \<and>
     (case g_index g of None \<Rightarrow> True | Some indexAttr \<Rightarrow> list_all (\<lambda>i. i < length (g_position g)) indexAttr)"

fun wellFormedScene :: "Object3D \<Rightarrow> bool" where
  "wellFormedScene (Object3D t nm m mw cs g mt) =
     (if t = ''Mesh'' then wellFormedGeometry g
      else if isGroupType t then list_all wellFormedScene cs
      else True)"

definition verticesDefined :: "ComponentInfo list \<Rightarrow> bool" where
  "verticesDefined comps \<longleftrightarrow> list_all (\<lambda>c. list_all (\<lambda>v. v \<noteq> None) (vertices c)) comps"



section \<open>Verification\<close>

subsection \<open>The vertex map of \<^verbatim>\<open>processMesh\<close>\<close>

lemma vinv_empty: "vinv L (Map.empty, [])"
  by (simp add: vinv_def)

lemma processVertex_cases:
  obtains (hit) i where "fst st (vertexKey L (fromBufferAttribute pos vi)) = Some i"
      "processVertex L pos vi st = (st, i)"
  | (miss) "fst st (vertexKey L (fromBufferAttribute pos vi)) = None"
      "processVertex L pos vi st =
         (((fst st)(vertexKey L (fromBufferAttribute pos vi) \<mapsto> length (snd st)),
           snd st @ [fromBufferAttribute pos vi]), length (snd st))"
  by (cases "fst st (vertexKey L (fromBufferAttribute pos vi))")
     (simp_all add: processVertex_def Let_def)

lemma processVertex_vinv:
  assumes "vinv L st"
  shows "vinv L (fst (processVertex L pos vi st))"
proof (cases rule: processVertex_cases [of st L pos vi])
  case (hit i)
  then show ?thesis using assms by simp
next
  case miss
  let ?k = "vertexKey L (fromBufferAttribute pos vi)"
  have a: "\<And>k i. fst st k = Some i \<Longrightarrow> i < length (snd st) \<and> vertexKey L (snd st ! i) = k"
    and b: "\<And>i. i < length (snd st) \<Longrightarrow> fst st (vertexKey L (snd st ! i)) = Some i"
    using assms by (simp_all add: vinv_def)
  have "vinv L ((fst st)(?k \<mapsto> length (snd st)), snd st @ [fromBufferAttribute pos vi])"
    unfolding vinv_def fst_conv snd_conv
  proof (intro conjI allI impI)
    fix k i assume h: "((fst st)(?k \<mapsto> length (snd st))) k = Some i"
    show "i < length (snd st @ [fromBufferAttribute pos vi])"
      using h a by (cases "k = ?k") (auto simp: less_Suc_eq)
    show "vertexKey L ((snd st @ [fromBufferAttribute pos vi]) ! i) = k"
      using h a by (cases "k = ?k") (auto simp: nth_append)
  next
    fix i assume h: "i < length (snd st @ [fromBufferAttribute pos vi])"
    show "((fst st)(?k \<mapsto> length (snd st))) (vertexKey L ((snd st @ [fromBufferAttribute pos vi]) ! i)) = Some i"
    proof (cases "i < length (snd st)")
      case True
      then have "fst st (vertexKey L (snd st ! i)) = Some i" by (rule b)
      with True miss(1) show ?thesis by (auto simp: nth_append)
    next
      case False
      with h have "i = length (snd st)" by simp
      then show ?thesis by simp
    qed
  qed
  with miss show ?thesis by simp
qed

lemma processVertex_lookup:
  assumes "vinv L st"
  shows "fst (fst (processVertex L pos vi st)) (vertexKey L (fromBufferAttribute pos vi))
           = Some (snd (processVertex L pos vi st))"
  by (cases rule: processVertex_cases [of st L pos vi]) simp_all

lemma processVertex_map_le:
  "fst st \<subseteq>\<^sub>m fst (fst (processVertex L pos vi st))"
  by (cases rule: processVertex_cases [of st L pos vi]) (auto simp: map_le_def domIff)

lemma processVertex_verts:
  "snd (fst (processVertex L pos vi st)) = snd st \<or>
   snd (fst (processVertex L pos vi st)) = snd st @ [fromBufferAttribute pos vi]"
  by (cases rule: processVertex_cases [of st L pos vi]) simp_all

lemma processVertex_mono:
  "fst st k = Some i \<Longrightarrow> fst (fst (processVertex L pos vi st)) k = Some i"
  by (cases rule: processVertex_cases [of st L pos vi]) auto

lemma cornerIndices_snoc:
  "cornerIndices (tris @ [\<lparr> v1 = a, v2 = b, v3 = c \<rparr>]) = cornerIndices tris @ [a, b, c]"
  by (simp add: cornerIndices_def triangleCorners_def)

lemma loop_inv_step:
  assumes J: "loop_inv L pos ixAt i st tris"
  defines "r1 \<equiv> processVertex L pos (ixAt i) st"
  defines "r2 \<equiv> processVertex L pos (ixAt (i + 1)) (fst r1)"
  defines "r3 \<equiv> processVertex L pos (ixAt (i + 2)) (fst r2)"
  shows "loop_inv L pos ixAt (i + 3) (fst r3) (tris @ [\<lparr> v1 = snd r1, v2 = snd r2, v3 = snd r3 \<rparr>])"
proof -
  let ?key = "\<lambda>n. vertexKey L (cornerVertex pos ixAt n)"
  let ?ci = "cornerIndices tris"
  have inv0: "vinv L st" and len: "length ?ci = i"
    and old: "\<And>n. n < i \<Longrightarrow> fst st (?key n) = Some (?ci ! n)"
    and sub: "set (snd st) \<subseteq> cornerVertex pos ixAt ` {..<i}"
    using J by (simp_all add: loop_inv_def)
  have inv1: "vinv L (fst r1)" unfolding r1_def using inv0 by (rule processVertex_vinv)
  have inv2: "vinv L (fst r2)" unfolding r2_def using inv1 by (rule processVertex_vinv)
  have inv3: "vinv L (fst r3)" unfolding r3_def using inv2 by (rule processVertex_vinv)
  have l1: "fst (fst r1) (?key i) = Some (snd r1)"
    unfolding r1_def cornerVertex_def using inv0 by (rule processVertex_lookup)
  have l2: "fst (fst r2) (?key (i + 1)) = Some (snd r2)"
    unfolding r2_def cornerVertex_def using inv1 by (rule processVertex_lookup)
  have l3: "fst (fst r3) (?key (i + 2)) = Some (snd r3)"
    unfolding r3_def cornerVertex_def using inv2 by (rule processVertex_lookup)
  have m1: "\<And>k j. fst st k = Some j \<Longrightarrow> fst (fst r1) k = Some j"
    unfolding r1_def by (rule processVertex_mono)
  have m2: "\<And>k j. fst (fst r1) k = Some j \<Longrightarrow> fst (fst r2) k = Some j"
    unfolding r2_def by (rule processVertex_mono)
  have m3: "\<And>k j. fst (fst r2) k = Some j \<Longrightarrow> fst (fst r3) k = Some j"
    unfolding r3_def by (rule processVertex_mono)
  have look: "fst (fst r3) (?key n) = Some ((?ci @ [snd r1, snd r2, snd r3]) ! n)" if "n < i + 3" for n
  proof -
    have "n < i \<or> n = i \<or> n = i + 1 \<or> n = i + 2" using that by arith
    then consider "n < i" | "n = i" | "n = i + 1" | "n = i + 2" by blast
    then show ?thesis
    proof cases
      case 1
      then show ?thesis using old [OF 1] m1 m2 m3 len by (simp add: nth_append)
    next
      case 2
      then show ?thesis using l1 m2 m3 len by (simp add: nth_append)
    next
      case 3
      then show ?thesis using l2 m3 len by (simp add: nth_append)
    next
      case 4
      then show ?thesis using l3 len by (simp add: nth_append)
    qed
  qed
  have "cornerVertex pos ixAt ` {..<i} \<subseteq> cornerVertex pos ixAt ` {..<i + 3}"
    by (rule image_mono) simp
  with sub have sub': "set (snd st) \<subseteq> cornerVertex pos ixAt ` {..<i + 3}"
    by (rule subset_trans)
  have s1: "set (snd (fst r1)) \<subseteq> cornerVertex pos ixAt ` {..<i + 3}"
    using processVertex_verts [of L pos "ixAt i" st] sub'
    unfolding r1_def [symmetric] cornerVertex_def [symmetric] by auto
  have s2: "set (snd (fst r2)) \<subseteq> cornerVertex pos ixAt ` {..<i + 3}"
    using processVertex_verts [of L pos "ixAt (i + 1)" "fst r1"] s1
    unfolding r2_def [symmetric] cornerVertex_def [symmetric] by auto
  have s3: "set (snd (fst r3)) \<subseteq> cornerVertex pos ixAt ` {..<i + 3}"
    using processVertex_verts [of L pos "ixAt (i + 2)" "fst r2"] s2
    unfolding r3_def [symmetric] cornerVertex_def [symmetric] by auto
  show ?thesis
    unfolding loop_inv_def cornerIndices_snoc
    using inv3 len look s3 by simp
qed

lemma triangleLoop_inv:
  assumes "loop_inv L pos ixAt i st tris"
  shows "\<exists>i'. loop_inv L pos ixAt i' (fst (triangleLoop L pos ixAt count i st tris))
           (snd (triangleLoop L pos ixAt count i st tris))"
  using assms
proof (induction L pos ixAt count i st tris rule: triangleLoop.induct)
  case (1 L pos ixAt count i st tris)
  show ?case
  proof (cases "i < count")
    case True
    have "loop_inv L pos ixAt (i + 3)
            (fst (processVertex L pos (ixAt (i + 2)) (fst (processVertex L pos (ixAt (i + 1)) (fst (processVertex L pos (ixAt i) st))))))
            (tris @ [\<lparr> v1 = snd (processVertex L pos (ixAt i) st),
                       v2 = snd (processVertex L pos (ixAt (i + 1)) (fst (processVertex L pos (ixAt i) st))),
                       v3 = snd (processVertex L pos (ixAt (i + 2)) (fst (processVertex L pos (ixAt (i + 1)) (fst (processVertex L pos (ixAt i) st))))) \<rparr>])"
      using "1.prems" by (rule loop_inv_step)
    from "1.IH" [OF True refl refl refl this] True
    show ?thesis by (subst (1 2) triangleLoop.simps) (simp add: Let_def)
  next
    case False
    then show ?thesis using "1.prems" by (subst (1 2) triangleLoop.simps) auto
  qed
qed

lemma meshGeometry_inv:
  "\<exists>i. loop_inv L (g_position g) (vertexIndexAt g) i (fst (meshGeometry L g)) (snd (meshGeometry L g))"
  unfolding meshGeometry_def
  by (rule triangleLoop_inv) (simp add: loop_inv_def vinv_empty cornerIndices_def)

lemma loop_inv_lookup:
  assumes "loop_inv L pos ixAt i st tris" and "n < length (cornerIndices tris)"
  shows "fst st (vertexKey L (cornerVertex pos ixAt n)) = Some (cornerIndices tris ! n)"
  using assms by (simp add: loop_inv_def)

lemma loop_inv_valid:
  assumes "loop_inv L pos ixAt i st tris" and "n < length (cornerIndices tris)"
  shows "cornerIndices tris ! n < length (snd st)"
    and "vertexKey L (snd st ! (cornerIndices tris ! n)) = vertexKey L (cornerVertex pos ixAt n)"
proof -
  have v: "vinv L st" using assms(1) by (simp add: loop_inv_def)
  have l: "fst st (vertexKey L (cornerVertex pos ixAt n)) = Some (cornerIndices tris ! n)"
    using assms by (rule loop_inv_lookup)
  from v l show "cornerIndices tris ! n < length (snd st)" unfolding vinv_def by blast
  from v l show "vertexKey L (snd st ! (cornerIndices tris ! n)) = vertexKey L (cornerVertex pos ixAt n)"
    unfolding vinv_def by blast
qed


lemma corner_of_triangle:
  assumes "t \<in> set tris"
  shows "v1 t \<in> set (cornerIndices tris)" "v2 t \<in> set (cornerIndices tris)" "v3 t \<in> set (cornerIndices tris)"
  using assms by (auto simp: cornerIndices_def triangleCorners_def)

lemma loop_inv_triangles_valid:
  assumes "loop_inv L pos ixAt i st tris" and "t \<in> set tris"
  shows "v1 t < length (snd st) \<and> v2 t < length (snd st) \<and> v3 t < length (snd st)"
proof -
  have "k < length (snd st)" if "k \<in> set (cornerIndices tris)" for k
  proof -
    from that obtain n where "n < length (cornerIndices tris)" "cornerIndices tris ! n = k"
      by (auto simp: in_set_conv_nth)
    with loop_inv_valid(1) [OF assms(1)] show ?thesis by blast
  qed
  with corner_of_triangle [OF assms(2)] show ?thesis by blast
qed

lemma find_sameColor:
  "find (sameColor color) mats = Some m \<Longrightarrow> m \<in> set mats \<and> sameColor color m"
  by (auto simp: find_Some_iff)

lemma resolveMaterial_prefix: "prefix mats (fst (resolveMaterial nm color mats))"
  by (simp add: resolveMaterial_def Let_def split: option.splits)

lemma processMaterial_prefix: "prefix mats (fst (processMaterial L mesh mats))"
  using resolveMaterial_prefix [of mats "o_name mesh" "materialColor L (firstMaterial (o_material mesh))"]
  by (simp add: processMaterial_def Let_def case_prod_beta)

lemma processMesh_eq:
  "processMesh L mesh st =
     (st\<lparr> materials := fst (processMaterial L mesh (materials st)),
          components := components st @
            [meshComponent L mesh (snd (processMaterial L mesh (materials st))) (int (length (components st)) + 1)] \<rparr>,
      int (length (components st)) + 1)"
  by (simp add: processMesh_def Let_def)

lemma meshComponent_sel:
  "c_id (meshComponent L mesh mi k) = k"
  "c_type (meshComponent L mesh mi k) = Mesh"
  "vertices (meshComponent L mesh mi k) = snd (fst (meshGeometry L (o_geometry mesh)))"
  "triangles (meshComponent L mesh mi k) = snd (meshGeometry L (o_geometry mesh))"
  "material (meshComponent L mesh mi k) = mi"
  "subComponents (meshComponent L mesh mi k) = []"
  by (simp_all add: meshComponent_def Let_def)

subsection \<open>What \<^verbatim>\<open>processNode\<close> does to the tables\<close>

lemma processMesh_frame:
  "buildItems (fst (processMesh L mesh st)) = buildItems st"
  "allVerticesWorld (fst (processMesh L mesh st)) = allVerticesWorld st"
  "components (fst (processMesh L mesh st)) =
     components st @ [meshComponent L mesh (snd (processMaterial L mesh (materials st))) (int (length (components st)) + 1)]"
  "materials (fst (processMesh L mesh st)) = fst (processMaterial L mesh (materials st))"
  "snd (processMesh L mesh st) = int (length (components st)) + 1"
  by (simp_all add: processMesh_eq)

lemma node_post_mesh: "node_post st (fst (processMesh L mesh st)) (snd (processMesh L mesh st))"
  by (simp add: node_post_def processMesh_frame processMaterial_prefix)

lemma processNode_post:
  "node_post st (fst (processNode L node st)) (snd (processNode L node st))"
  and processChildren_post:
  "children_post st subs (fst (processChildren L node' cs st subs)) (snd (processChildren L node' cs st subs))"
proof (induction L node st and L node' cs st subs rule: processNode_processChildren.induct)
  case (1 L t nm m mw cs g mt st)
  let ?node = "Object3D t nm m mw cs g mt"
  show ?case
  proof (cases "t = ''Mesh''")
    case True
    then show ?thesis by (simp add: node_post_mesh)
  next
    case notMesh: False
    show ?thesis
    proof (cases "isGroupType t")
      case False
      with notMesh show ?thesis by (simp add: node_post_def)
    next
      case True
      let ?r = "processChildren L ?node cs st []"
      have IH: "children_post st [] (fst ?r) (snd ?r)"
        using "1.IH" [OF notMesh True] .
      show ?thesis
      proof (cases "snd ?r = []")
        case e: True
        with IH have "fst ?r = st" by (simp add: children_post_def)
        with e notMesh True show ?thesis
          by (simp add: node_post_def case_prod_beta)
      next
        case ne: False
        with IH notMesh True show ?thesis
          by (auto simp: node_post_def children_post_def case_prod_beta Let_def prefix_def)
      qed
    qed
  qed
next
  case (2 L node st subs)
  show ?case by (simp add: children_post_def)
next
  case (3 L node child rest st subs)
  let ?p = "processNode L child st"
  have P: "node_post st (fst ?p) (snd ?p)" using "3.IH"(1) .
  show ?case
  proof (cases "snd ?p = - 1")
    case True
    with P have eq: "fst ?p = st" by (simp add: node_post_def)
    have "children_post (fst ?p) subs (fst (processChildren L node rest (fst ?p) subs))
            (snd (processChildren L node rest (fst ?p) subs))"
      using "3.IH"(3) [OF refl prod.collapse] True by simp
    with True eq show ?thesis by (simp add: case_prod_beta)
  next
    case False
    let ?subs1 = "subs @ [\<lparr> sc_objectId = snd ?p, sc_transform = relMatrix L child node \<rparr>]"
    let ?q = "processChildren L node rest (fst ?p) ?subs1"
    have Q: "children_post (fst ?p) ?subs1 (fst ?q) (snd ?q)"
      using "3.IH"(2) [OF refl prod.collapse] False by simp
    have r: "snd ?p = int (length (components (fst ?p)))"
      and g: "length (components st) < length (components (fst ?p))"
      using P False by (simp_all add: node_post_def)
    have res: "processChildren L node (child # rest) st subs = ?q"
      using False by (simp add: case_prod_beta)
    have c1: "prefix (components st) (components (fst ?q))"
      using P Q by (auto simp: node_post_def children_post_def intro: prefix_order.trans)
    have c2: "prefix (materials st) (materials (fst ?q))"
      using P Q by (auto simp: node_post_def children_post_def intro: prefix_order.trans)
    have c3: "buildItems (fst ?q) = buildItems st"
      using P Q by (simp add: node_post_def children_post_def)
    have c4: "allVerticesWorld (fst ?q) = allVerticesWorld st"
      using P Q by (simp add: node_post_def children_post_def)
    have pre: "prefix ?subs1 (snd ?q)" using Q by (simp add: children_post_def)
    then have c5: "prefix subs (snd ?q)" by (auto simp: prefix_def)
    have c6: "snd ?q = subs \<longrightarrow> fst ?q = st"
      using pre by (auto simp: prefix_def)
    have len: "length (components (fst ?p)) \<le> length (components (fst ?q))"
      using Q by (auto simp: children_post_def prefix_def)
    have c7: "int (length (components st)) < sc_objectId sc \<and> sc_objectId sc \<le> int (length (components (fst ?q)))"
      if sc: "sc \<in> set (snd ?q) - set subs" for sc
    proof (cases "sc \<in> set ?subs1")
      case True
      with sc have "sc_objectId sc = snd ?p" by auto
      with r g len show ?thesis by simp
    next
      case False
      with sc have "sc \<in> set (snd ?q) - set ?subs1" by simp
      with Q have "int (length (components (fst ?p))) < sc_objectId sc \<and>
          sc_objectId sc \<le> int (length (components (fst ?q)))"
        by (simp add: children_post_def)
      with g show ?thesis by simp
    qed
    have "children_post st subs (fst ?q) (snd ?q)"
      unfolding children_post_def using c1 c2 c3 c4 c5 c6 c7 by blast
    with res show ?thesis by simp
  qed
qed

subsection \<open>Every component that \<^verbatim>\<open>processNode\<close> appends is in order\<close>

lemma newGood_refl: "newGood st st"
  by (auto simp: newGood_def)

lemma newGood_append:
  assumes "goodComponent (length (components st)) c"
  shows "newGood st (st\<lparr> components := components st @ [c] \<rparr>)"
  unfolding newGood_def
proof (intro allI impI)
  fix k assume "length (components st) \<le> k \<and> k < length (components (st\<lparr> components := components st @ [c] \<rparr>))"
  then have "k = length (components st)" by simp
  with assms show "goodComponent k (components (st\<lparr> components := components st @ [c] \<rparr>) ! k)" by simp
qed

lemma newGood_trans:
  assumes "newGood st st1" "newGood st1 st2" "prefix (components st1) (components st2)"
  shows "newGood st st2"
  unfolding newGood_def
proof (intro allI impI)
  fix k assume k: "length (components st) \<le> k \<and> k < length (components st2)"
  show "goodComponent k (components st2 ! k)"
  proof (cases "k < length (components st1)")
    case True
    with assms(3) have "components st2 ! k = components st1 ! k"
      by (auto simp: prefix_def nth_append)
    with assms(1) k True show ?thesis by (simp add: newGood_def)
  next
    case False
    with assms(2) k show ?thesis by (simp add: newGood_def)
  qed
qed

lemma goodComponent_mesh: "goodComponent k (meshComponent L mesh mi (int k + 1))"
proof -
  obtain i where inv: "loop_inv L (g_position (o_geometry mesh)) (vertexIndexAt (o_geometry mesh)) i
      (fst (meshGeometry L (o_geometry mesh))) (snd (meshGeometry L (o_geometry mesh)))"
    using meshGeometry_inv by blast
  show ?thesis
    unfolding goodComponent_def meshComponent_sel
    using loop_inv_triangles_valid [OF inv] by simp
qed

lemma newGood_mesh: "newGood st (fst (processMesh L mesh st))"
  unfolding processMesh_eq fst_conv
  using newGood_append [OF goodComponent_mesh, of st L mesh "snd (processMaterial L mesh (materials st))"]
  by (simp add: newGood_def)

lemma processNode_newGood: "newGood st (fst (processNode L node st))"
  and processChildren_newGood: "newGood st (fst (processChildren L node' cs st subs))"
proof (induction L node st and L node' cs st subs rule: processNode_processChildren.induct)
  case (1 L t nm m mw cs g mt st)
  let ?node = "Object3D t nm m mw cs g mt"
  show ?case
  proof (cases "t = ''Mesh''")
    case True
    then show ?thesis by (simp add: newGood_mesh)
  next
    case notMesh: False
    show ?thesis
    proof (cases "isGroupType t")
      case False
      with notMesh show ?thesis by (simp add: newGood_refl)
    next
      case True
      let ?r = "processChildren L ?node cs st []"
      have IH: "newGood st (fst ?r)" using "1.IH" [OF notMesh True] .
      have post: "children_post st [] (fst ?r) (snd ?r)" by (rule processChildren_post)
      show ?thesis
      proof (cases "snd ?r = []")
        case e: True
        with IH notMesh True show ?thesis by (simp add: case_prod_beta)
      next
        case ne: False
        let ?k = "length (components (fst ?r))"
        let ?asm = "\<lparr> c_id = int ?k + 1, c_type = Assembly, vertices = [], triangles = [],
                        material = None, subComponents = snd ?r,
                        c_name = (if nm \<noteq> [] then nm else ''Group-'' @ str_of_int (int ?k + 1)) \<rparr>"
        let ?st2 = "(fst ?r)\<lparr> components := components (fst ?r) @ [?asm] \<rparr>"
        have res: "fst (processNode L ?node st) = ?st2"
          using notMesh True ne by (simp add: case_prod_beta Let_def)
        have "\<forall>sc \<in> set (snd ?r). 1 \<le> sc_objectId sc \<and> sc_objectId sc < int ?k + 1"
          using post by (auto simp: children_post_def)
        then have ga: "goodComponent ?k ?asm" using ne by (simp add: goodComponent_def)
        have "newGood (fst ?r) ?st2"
          using ga by (rule newGood_append)
        with IH have "newGood st ?st2" by (rule newGood_trans) simp
        with res show ?thesis by simp
      qed
    qed
  qed
next
  case (2 L node st subs)
  show ?case by (simp add: newGood_refl)
next
  case (3 L node child rest st subs)
  let ?p = "processNode L child st"
  have P: "newGood st (fst ?p)" using "3.IH"(1) .
  show ?case
  proof (cases "snd ?p = - 1")
    case True
    have Q: "newGood (fst ?p) (fst (processChildren L node rest (fst ?p) subs))"
      using "3.IH"(3) [OF refl prod.collapse] True by simp
    have "prefix (components (fst ?p)) (components (fst (processChildren L node rest (fst ?p) subs)))"
      using processChildren_post [of "fst ?p" subs L node rest] by (simp add: children_post_def)
    with P Q have "newGood st (fst (processChildren L node rest (fst ?p) subs))" by (rule newGood_trans)
    with True show ?thesis by (simp add: case_prod_beta)
  next
    case False
    let ?subs1 = "subs @ [\<lparr> sc_objectId = snd ?p, sc_transform = relMatrix L child node \<rparr>]"
    let ?q = "processChildren L node rest (fst ?p) ?subs1"
    have Q: "newGood (fst ?p) (fst ?q)"
      using "3.IH"(2) [OF refl prod.collapse] False by simp
    have "prefix (components (fst ?p)) (components (fst ?q))"
      using processChildren_post [of "fst ?p" ?subs1 L node rest] by (simp add: children_post_def)
    with P Q have "newGood st (fst ?q)" by (rule newGood_trans)
    with False show ?thesis by (simp add: case_prod_beta)
  qed
qed

subsection \<open>Lookups in a table that is in order; enough fuel\<close>

lemma goodTable_newGood:
  assumes "goodTable (components st)" "newGood st st'" "prefix (components st) (components st')"
  shows "goodTable (components st')"
  unfolding goodTable_def
proof (intro allI impI)
  fix k assume k: "k < length (components st')"
  show "goodComponent k (components st' ! k)"
  proof (cases "k < length (components st)")
    case True
    with assms(3) have "components st' ! k = components st ! k"
      by (auto simp: prefix_def nth_append)
    with assms(1) True show ?thesis by (simp add: goodTable_def)
  next
    case False
    with assms(2) k show ?thesis by (simp add: newGood_def)
  qed
qed

lemma find_nth_unique:
  assumes "k < length xs" "P (xs ! k)" "\<And>j. j < length xs \<Longrightarrow> P (xs ! j) \<Longrightarrow> j = k"
  shows "find P xs = Some (xs ! k)"
proof -
  have "\<exists>i<length xs. P (xs ! i) \<and> xs ! k = xs ! i \<and> (\<forall>j<i. \<not> P (xs ! j))"
  proof (intro exI [of _ k] conjI allI impI)
    show "k < length xs" by fact
    show "P (xs ! k)" by fact
    show "xs ! k = xs ! k" ..
    fix j assume "j < k"
    then show "\<not> P (xs ! j)" using assms(1) assms(3) [of j] by auto
  qed
  then show ?thesis by (simp add: find_Some_iff)
qed

lemma findComponent_good:
  assumes "goodTable comps" "1 \<le> i" "i \<le> int (length comps)"
  shows "findComponent comps i = Some (comps ! (nat i - 1))"
  unfolding findComponent_def
proof (rule find_nth_unique)
  show "nat i - 1 < length comps" using assms(2,3) by linarith
  then show "c_id (comps ! (nat i - 1)) = i"
    using assms(1,2) by (auto simp: goodTable_def goodComponent_def)
  fix j assume "j < length comps" "c_id (comps ! j) = i"
  then show "j = nat i - 1" using assms(1) by (auto simp: goodTable_def goodComponent_def)
qed

lemma flatMapE_total:
  assumes "\<And>x. x \<in> set xs \<Longrightarrow> \<exists>ys. f x = Inr ys"
  shows "\<exists>zs. flatMapE f xs = Inr zs"
  using assms
proof (induction xs)
  case Nil
  then show ?case by simp
next
  case (Cons x xs)
  from Cons.prems [of x] obtain ys where "f x = Inr ys" by auto
  moreover from Cons.IH Cons.prems obtain zs where "flatMapE f xs = Inr zs" by auto
  ultimately show ?case by simp
qed

lemma getVerts_total:
  assumes "goodTable comps"
  shows "k < length comps \<Longrightarrow> k < fuel \<Longrightarrow> \<exists>vs. getVerts L comps fuel (comps ! k) = Inr vs"
proof (induction fuel arbitrary: k)
  case 0
  then show ?case by simp
next
  case (Suc fuel)
  let ?c = "comps ! k"
  have good: "goodComponent k ?c" using assms Suc.prems(1) by (simp add: goodTable_def)
  show ?case
  proof (cases "c_type ?c = Assembly")
    case False
    then show ?thesis by simp
  next
    case True
    have "\<exists>ys. (case findComponent comps (sc_objectId sc) of
              None \<Rightarrow> Inl TypeError
            | Some subComp \<Rightarrow>
                (case getVerts L comps fuel subComp of
                   Inl e \<Rightarrow> Inl e
                 | Inr vs \<Rightarrow> Inr (map (\<lambda>v. applyMatrix4 L v (sc_transform sc)) vs))) = Inr ys"
      if sc: "sc \<in> set (subComponents ?c)" for sc
    proof -
      have r: "1 \<le> sc_objectId sc" "sc_objectId sc < int k + 1"
        using good sc by (auto simp: goodComponent_def)
      then have le: "sc_objectId sc \<le> int (length comps)" using Suc.prems(1) by linarith
      have f: "findComponent comps (sc_objectId sc) = Some (comps ! (nat (sc_objectId sc) - 1))"
        using assms r(1) le by (rule findComponent_good)
      have "nat (sc_objectId sc) - 1 < length comps" "nat (sc_objectId sc) - 1 < fuel"
        using r Suc.prems by linarith+
      then obtain vs where "getVerts L comps fuel (comps ! (nat (sc_objectId sc) - 1)) = Inr vs"
        using Suc.IH by blast
      with f show ?thesis by simp
    qed
    then show ?thesis using True by (simp add: flatMapE_total)
  qed
qed

lemma collect_total:
  assumes "goodTable comps"
  shows "k < length comps \<Longrightarrow> k < fuel \<Longrightarrow> \<exists>ps. collect comps fuel (comps ! k) = Inr ps"
proof (induction fuel arbitrary: k)
  case 0
  then show ?case by simp
next
  case (Suc fuel)
  let ?c = "comps ! k"
  have good: "goodComponent k ?c" using assms Suc.prems(1) by (simp add: goodTable_def)
  show ?case
  proof (cases "c_type ?c = Mesh")
    case True
    then show ?thesis by simp
  next
    case False
    have "\<exists>ys. (case findComponent comps (sc_objectId sc) of
              None \<Rightarrow> Inl TypeError
            | Some x \<Rightarrow> collect comps fuel x) = Inr ys"
      if sc: "sc \<in> set (subComponents ?c)" for sc
    proof -
      have r: "1 \<le> sc_objectId sc" "sc_objectId sc < int k + 1"
        using good sc by (auto simp: goodComponent_def)
      then have le: "sc_objectId sc \<le> int (length comps)" using Suc.prems(1) by linarith
      have f: "findComponent comps (sc_objectId sc) = Some (comps ! (nat (sc_objectId sc) - 1))"
        using assms r(1) le by (rule findComponent_good)
      have "nat (sc_objectId sc) - 1 < length comps" "nat (sc_objectId sc) - 1 < fuel"
        using r Suc.prems by linarith+
      then obtain ps where "collect comps fuel (comps ! (nat (sc_objectId sc) - 1)) = Inr ps"
        using Suc.IH by blast
      with f show ?thesis by simp
    qed
    then show ?thesis using False by (simp add: flatMapE_total)
  qed
qed

lemma processNode_size:
  "length (components (fst (processNode L node st))) \<le> length (components st) + nodeCount node"
  and processChildren_size:
  "length (components (fst (processChildren L node' cs st subs)))
     \<le> length (components st) + sum_list (map nodeCount cs)"
proof (induction L node st and L node' cs st subs rule: processNode_processChildren.induct)
  case (1 L t nm m mw cs g mt st)
  show ?case
  proof (cases "t = ''Mesh''")
    case True
    then show ?thesis by (simp add: processMesh_frame)
  next
    case notMesh: False
    show ?thesis
    proof (cases "isGroupType t")
      case False
      with notMesh show ?thesis by simp
    next
      case True
      from "1.IH" [OF notMesh True] notMesh True show ?thesis
        by (simp add: case_prod_beta Let_def)
    qed
  qed
next
  case (2 L node st subs)
  show ?case by simp
next
  case (3 L node child rest st subs)
  let ?p = "processNode L child st"
  have P: "length (components (fst ?p)) \<le> length (components st) + nodeCount child"
    using "3.IH"(1) .
  show ?case
  proof (cases "snd ?p = - 1")
    case True
    from "3.IH"(3) [OF refl prod.collapse] True P show ?thesis
      by (simp add: case_prod_beta)
  next
    case False
    from "3.IH"(2) [OF refl prod.collapse] False P show ?thesis
      by (simp add: case_prod_beta)
  qed
qed

subsection \<open>The top-level traversal\<close>

lemma root_post_refl: "root_post st st"
  by (simp add: root_post_def newGood_refl)

lemma processNode_goodTable:
  assumes "goodTable (components st)"
  shows "goodTable (components (fst (processNode L node st)))"
  using assms processNode_newGood
proof (rule goodTable_newGood)
  show "prefix (components st) (components (fst (processNode L node st)))"
    using processNode_post [of st L node] by (simp add: node_post_def)
qed

lemma rootLoop_post:
  "rootLoop L fuel cs st = Inr st' \<Longrightarrow> root_post st st'"
proof (induction cs arbitrary: st)
  case Nil
  then show ?case by (simp add: root_post_refl)
next
  case (Cons child rest)
  let ?p = "processNode L child st"
  let ?st1 = "fst ?p"
  have P: "node_post st ?st1 (snd ?p)" by (rule processNode_post)
  have G: "newGood st ?st1" by (rule processNode_newGood)
  show ?case
  proof (cases "snd ?p = - 1")
    case True
    with P have "?st1 = st" by (simp add: node_post_def)
    with True Cons.prems have "rootLoop L fuel rest st = Inr st'" by (simp add: case_prod_beta)
    then show ?thesis by (rule Cons.IH)
  next
    case False
    from False Cons.prems obtain targetComp verts where
      run: "rootLoop L fuel rest
              (?st1\<lparr> allVerticesWorld := allVerticesWorld ?st1 @ map (\<lambda>vec. applyMatrix4 L vec (o_matrix child)) verts,
                     buildItems := buildItems ?st1 @ [\<lparr> b_objectId = snd ?p, transformMatrix = o_matrix child \<rparr>] \<rparr>) = Inr st'"
      by (auto simp: case_prod_beta Let_def split: option.splits sum.splits)
    let ?st2 = "?st1\<lparr> allVerticesWorld := allVerticesWorld ?st1 @ map (\<lambda>vec. applyMatrix4 L vec (o_matrix child)) verts,
                     buildItems := buildItems ?st1 @ [\<lparr> b_objectId = snd ?p, transformMatrix = o_matrix child \<rparr>] \<rparr>"
    have R: "root_post ?st2 st'" using run by (rule Cons.IH)
    have c12: "components ?st2 = components ?st1" "materials ?st2 = materials ?st1" by simp_all
    have pc: "prefix (components st) (components ?st1)" and pm: "prefix (materials st) (materials ?st1)"
      and bi: "buildItems ?st1 = buildItems st"
      and rid: "snd ?p = int (length (components ?st1))" and grow: "length (components st) < length (components ?st1)"
      using P False by (simp_all add: node_post_def)
    have pc2: "prefix (components ?st1) (components st')" and pm2: "prefix (materials ?st1) (materials st')"
      and g2: "newGood ?st2 st'"
      using R by (simp_all add: root_post_def)
    from R obtain items where items: "buildItems st' = buildItems ?st2 @ items"
      "\<forall>b \<in> set items. int (length (components ?st2)) < b_objectId b \<and> b_objectId b \<le> int (length (components st'))"
      unfolding root_post_def by blast
    have g2': "newGood ?st1 st'" using g2 by (simp add: newGood_def)
    have n: "newGood st st'" using G g2' pc2 by (rule newGood_trans)
    have len: "length (components ?st1) \<le> length (components st')"
      using pc2 by (auto simp: prefix_def)
    let ?items = "\<lparr> b_objectId = snd ?p, transformMatrix = o_matrix child \<rparr> # items"
    have b1: "buildItems st' = buildItems st @ ?items" using items(1) bi by simp
    have b2: "\<forall>b \<in> set ?items. int (length (components st)) < b_objectId b \<and> b_objectId b \<le> int (length (components st'))"
      using items(2) rid grow len by auto
    show ?thesis
      unfolding root_post_def
      using prefix_order.trans [OF pc pc2] prefix_order.trans [OF pm pm2] n b1 b2 by blast
  qed
qed

lemma rootLoop_total:
  "goodTable (components st) \<Longrightarrow> length (components st) + sum_list (map nodeCount cs) \<le> fuel
     \<Longrightarrow> \<exists>st'. rootLoop L fuel cs st = Inr st'"
proof (induction cs arbitrary: st)
  case Nil
  then show ?case by simp
next
  case (Cons child rest)
  let ?p = "processNode L child st"
  let ?st1 = "fst ?p"
  have P: "node_post st ?st1 (snd ?p)" by (rule processNode_post)
  have G1: "goodTable (components ?st1)" using Cons.prems(1) by (rule processNode_goodTable)
  have sz: "length (components ?st1) \<le> length (components st) + nodeCount child"
    by (rule processNode_size)
  show ?case
  proof (cases "snd ?p = - 1")
    case True
    with P have eq: "?st1 = st" by (simp add: node_post_def)
    have "\<exists>st'. rootLoop L fuel rest st = Inr st'"
      using Cons.prems by (intro Cons.IH) simp_all
    with True eq show ?thesis by (simp add: case_prod_beta)
  next
    case False
    have rid: "snd ?p = int (length (components ?st1))" and grow: "length (components st) < length (components ?st1)"
      using P False by (simp_all add: node_post_def)
    let ?k = "length (components ?st1) - 1"
    have k: "?k < length (components ?st1)" using grow by simp
    have "findComponent (components ?st1) (snd ?p) = Some (components ?st1 ! (nat (snd ?p) - 1))"
      using G1 by (rule findComponent_good) (use rid grow in simp_all)
    then have f: "findComponent (components ?st1) (snd ?p) = Some (components ?st1 ! ?k)"
      using rid by simp
    have "?k < fuel" using sz Cons.prems(2) grow by simp
    with G1 k obtain verts where gv: "getVerts L (components ?st1) fuel (components ?st1 ! ?k) = Inr verts"
      using getVerts_total by blast
    let ?st2 = "?st1\<lparr> allVerticesWorld := allVerticesWorld ?st1 @ map (\<lambda>vec. applyMatrix4 L vec (o_matrix child)) verts,
                     buildItems := buildItems ?st1 @ [\<lparr> b_objectId = snd ?p, transformMatrix = o_matrix child \<rparr>] \<rparr>"
    have "\<exists>st'. rootLoop L fuel rest ?st2 = Inr st'"
    proof (rule Cons.IH)
      show "goodTable (components ?st2)" using G1 by simp
      show "length (components ?st2) + sum_list (map nodeCount rest) \<le> fuel"
        using sz Cons.prems(2) by simp
    qed
    with False f gv show ?thesis by (simp add: case_prod_beta Let_def)
  qed
qed

lemma goodTable_empty: "goodTable (components emptyState)"
  by (simp add: goodTable_def emptyState_def)

lemma rootChildren_count: "sum_list (map nodeCount (rootChildren object)) \<le> nodeCount object"
  by (cases object) (simp add: rootChildren_def)

lemma composeScene_total:
  assumes "nodeCount object \<le> fuel"
  shows "\<exists>st. composeScene L fuel object = Inr st"
  unfolding composeScene_def
proof (rule rootLoop_total [OF goodTable_empty])
  show "length (components emptyState) + sum_list (map nodeCount (rootChildren object)) \<le> fuel"
    using rootChildren_count [of object] assms by (simp add: emptyState_def)
qed

lemma composeScene_post:
  assumes "composeScene L fuel object = Inr st"
  shows "goodTable (components st)"
    and "\<forall>b \<in> set (buildItems st). 1 \<le> b_objectId b \<and> b_objectId b \<le> int (length (components st))"
proof -
  have R: "root_post emptyState st" using assms unfolding composeScene_def by (rule rootLoop_post)
  then have "newGood emptyState st" "prefix (components emptyState) (components st)"
    by (simp_all add: root_post_def)
  with goodTable_empty show "goodTable (components st)" by (rule goodTable_newGood)
  from R show "\<forall>b \<in> set (buildItems st). 1 \<le> b_objectId b \<and> b_objectId b \<le> int (length (components st))"
    by (auto simp: root_post_def emptyState_def)
qed

lemma goodTable_elem:
  assumes "goodTable comps" "c \<in> set comps"
  obtains k where "k < length comps" "comps ! k = c" "goodComponent k c"
proof -
  from assms(2) obtain k where "k < length comps" "comps ! k = c"
    by (auto simp: in_set_conv_nth)
  moreover with assms(1) have "goodComponent k c" by (auto simp: goodTable_def)
  ultimately show thesis by (rule that)
qed

lemma goodComponent_refs:
  "goodComponent k c \<Longrightarrow> sc \<in> set (subComponents c) \<Longrightarrow> 1 \<le> sc_objectId sc \<and> sc_objectId sc < c_id c"
  unfolding goodComponent_def by blast

lemma goodComponent_triangles:
  "goodComponent k c \<Longrightarrow> t \<in> set (triangles c) \<Longrightarrow>
     v1 t < length (vertices c) \<and> v2 t < length (vertices c) \<and> v3 t < length (vertices c)"
  unfolding goodComponent_def by blast


subsection \<open>Further facts on meshes and on the sample scene\<close>

lemma triangleLoop_length:
  "length (snd (triangleLoop L pos ixAt count i st tris)) = length tris + (count - i + 2) div 3"
proof (induction L pos ixAt count i st tris rule: triangleLoop.induct)
  case (1 L pos ixAt count i st tris)
  show ?case
  proof (cases "i < count")
    case True
    have "(count - i + 2) div 3 = Suc ((count - (i + 3) + 2) div 3)"
      using True by presburger
    with "1.IH" [OF True refl refl refl] True show ?thesis
      by (subst triangleLoop.simps) (simp add: Let_def)
  next
    case False
    then show ?thesis by (subst triangleLoop.simps) simp
  qed
qed

lemma cornerIndices_length: "length (cornerIndices tris) = 3 * length tris"
  by (induction tris) (simp_all add: cornerIndices_def triangleCorners_def)

lemma meshGeometry_length:
  "length (snd (meshGeometry L g)) = (cornerCount g + 2) div 3"
  by (simp add: meshGeometry_def triangleLoop_length)

lemma sameColor_eq: "sameColor color m \<longleftrightarrow> m_color m = color"
  by (cases color; cases "m_color m") (auto simp: sameColor_def)

lemma sample_composed:
  obtains st where "composeScene sampleRuntime 6 sampleScene = Inr st"
    and "st = projr (composeScene sampleRuntime 6 sampleScene)"
proof -
  have "nodeCount sampleScene \<le> 6" by code_simp
  then obtain st where "composeScene sampleRuntime 6 sampleScene = Inr st"
    using composeScene_total by blast
  then show thesis by (intro that [of st]) simp_all
qed

lemma sample_types:
  "map c_type (components (projr (composeScene sampleRuntime 6 sampleScene))) = [Mesh, Mesh, Assembly]"
  by code_simp

lemma sample_triangles:
  "triangles (components (projr (composeScene sampleRuntime 6 sampleScene)) ! 0) =
     [\<lparr> v1 = 0, v2 = 1, v3 = 2 \<rparr>, \<lparr> v1 = 0, v2 = 2, v3 = 3 \<rparr>]"
  by code_simp

lemma sample_vertices:
  "vertices (components (projr (composeScene sampleRuntime 6 sampleScene)) ! 0) =
     [Some (Vector3 0 0 0), Some (Vector3 1 0 0), Some (Vector3 1 1 0), Some (Vector3 0 1 0)]"
  by code_simp

subsection \<open>The equations of \<^verbatim>\<open>processNode\<close> and of the loops, by case\<close>

lemma processNode_Mesh:
  "o_type node = ''Mesh'' \<Longrightarrow> processNode L node st = processMesh L node st"
  by (cases node) simp

lemma processNode_other:
  "o_type node \<noteq> ''Mesh'' \<Longrightarrow> \<not> isGroupType (o_type node) \<Longrightarrow> processNode L node st = (st, - 1)"
  by (cases node) simp

lemma processNode_group:
  assumes "o_type node \<noteq> ''Mesh''" "isGroupType (o_type node)"
  shows "processNode L node st =
     (let r = processChildren L node (o_children node) st [];
          assemblyId = int (length (components (fst r))) + 1
      in if snd r \<noteq> [] then
           ((fst r)\<lparr> components := components (fst r) @
               [\<lparr> c_id = assemblyId, c_type = Assembly, vertices = [], triangles = [],
                  material = None, subComponents = snd r,
                  c_name = (if o_name node \<noteq> [] then o_name node else ''Group-'' @ str_of_int assemblyId) \<rparr>] \<rparr>,
            assemblyId)
         else (fst r, - 1))"
  using assms by (cases node) (simp add: case_prod_beta Let_def)

lemma processChildren_Cons:
  "processChildren L node (child # rest) st subs =
     (let r = processNode L child st
      in if snd r \<noteq> - 1 then
           processChildren L node rest (fst r)
             (subs @ [\<lparr> sc_objectId = snd r, sc_transform = relMatrix L child node \<rparr>])
         else processChildren L node rest (fst r) subs)"
  by (simp add: case_prod_beta Let_def)

lemma rootLoop_Cons:
  "rootLoop L fuel (child # rest) st =
     (let r = processNode L child st
      in if snd r \<noteq> - 1 then
           (case findComponent (components (fst r)) (snd r) of
              None \<Rightarrow> Inl TypeError
            | Some targetComp \<Rightarrow>
                (case getVerts L (components (fst r)) fuel targetComp of
                   Inl e \<Rightarrow> Inl e
                 | Inr verts \<Rightarrow>
                     rootLoop L fuel rest
                       ((fst r)\<lparr> allVerticesWorld :=
                               allVerticesWorld (fst r) @ map (\<lambda>vec. applyMatrix4 L vec (o_matrix child)) verts,
                             buildItems :=
                               buildItems (fst r) @ [\<lparr> b_objectId = snd r, transformMatrix = o_matrix child \<rparr>] \<rparr>)))
         else rootLoop L fuel rest (fst r))"
  by (simp add: case_prod_beta Let_def)

subsection \<open>Well-formed scenes: every stored vertex is defined\<close>

lemma cornerVertex_defined:
  assumes "wellFormedGeometry g" "n < cornerCount g"
  shows "cornerVertex (g_position g) (vertexIndexAt g) n \<noteq> None"
proof (cases "g_index g")
  case None
  with assms(2) show ?thesis
    by (simp add: cornerVertex_def vertexIndexAt_def cornerCount_def fromBufferAttribute_def)
next
  case (Some ix)
  with assms have n: "n < length ix" and all: "list_all (\<lambda>i. i < length (g_position g)) ix"
    by (simp_all add: cornerCount_def wellFormedGeometry_def)
  then have "ix ! n < length (g_position g)" by (simp add: list_all_length)
  with Some n show ?thesis
    by (simp add: cornerVertex_def vertexIndexAt_def getX_def fromBufferAttribute_def)
qed

lemma meshComponent_defined:
  assumes "wellFormedGeometry (o_geometry mesh)"
  shows "list_all (\<lambda>v. v \<noteq> None) (vertices (meshComponent L mesh mi k))"
proof -
  let ?g = "o_geometry mesh"
  let ?r = "meshGeometry L ?g"
  obtain i where inv: "loop_inv L (g_position ?g) (vertexIndexAt ?g) i (fst ?r) (snd ?r)"
    using meshGeometry_inv by blast
  then have "i = length (cornerIndices (snd ?r))" by (simp add: loop_inv_def)
  also have "\<dots> = 3 * ((cornerCount ?g + 2) div 3)"
    by (simp add: cornerIndices_length meshGeometry_length)
  also have "\<dots> = cornerCount ?g"
  proof -
    have "cornerCount ?g mod 3 = 0" using assms by (simp add: wellFormedGeometry_def)
    then show ?thesis by presburger
  qed
  finally have i: "i = cornerCount ?g" .
  have sub: "set (snd (fst ?r)) \<subseteq> cornerVertex (g_position ?g) (vertexIndexAt ?g) ` {..<cornerCount ?g}"
    using inv unfolding i by (simp add: loop_inv_def)
  have "v \<noteq> None" if "v \<in> set (snd (fst ?r))" for v
  proof -
    from that sub obtain n where "n < cornerCount ?g" "v = cornerVertex (g_position ?g) (vertexIndexAt ?g) n"
      by auto
    with cornerVertex_defined [OF assms] show ?thesis by simp
  qed
  then show ?thesis by (simp add: meshComponent_sel list_all_iff)
qed

lemma verticesDefined_append:
  "verticesDefined (xs @ ys) \<longleftrightarrow> verticesDefined xs \<and> verticesDefined ys"
  by (simp add: verticesDefined_def)

lemma processNode_defined:
  "wellFormedScene node \<Longrightarrow> verticesDefined (components st)
     \<Longrightarrow> verticesDefined (components (fst (processNode L node st)))"
  and processChildren_defined:
  "list_all wellFormedScene cs \<Longrightarrow> verticesDefined (components st)
     \<Longrightarrow> verticesDefined (components (fst (processChildren L node' cs st subs)))"
proof (induction L node st and L node' cs st subs rule: processNode_processChildren.induct)
  case (1 L t nm m mw cs g mt st)
  let ?node = "Object3D t nm m mw cs g mt"
  show ?case
  proof (cases "t = ''Mesh''")
    case True
    with "1.prems" have "wellFormedGeometry (o_geometry ?node)" by simp
    then have "list_all (\<lambda>v. v \<noteq> None)
        (vertices (meshComponent L ?node (snd (processMaterial L ?node (materials st))) (int (length (components st)) + 1)))"
      by (rule meshComponent_defined)
    with True "1.prems"(2) show ?thesis
      by (simp add: processMesh_frame verticesDefined_def)
  next
    case notMesh: False
    show ?thesis
    proof (cases "isGroupType t")
      case False
      with notMesh "1.prems"(2) show ?thesis by simp
    next
      case True
      from "1.prems"(1) notMesh True have "list_all wellFormedScene cs" by simp
      then have "verticesDefined (components (fst (processChildren L ?node cs st [])))"
        using "1.prems"(2) by (rule "1.IH" [OF notMesh True])
      with notMesh True show ?thesis
        by (simp add: case_prod_beta Let_def verticesDefined_def)
    qed
  qed
next
  case (2 L node st subs)
  then show ?case by simp
next
  case (3 L node child rest st subs)
  let ?p = "processNode L child st"
  from "3.prems"(1) have wc: "wellFormedScene child" and wr: "list_all wellFormedScene rest" by simp_all
  have P: "verticesDefined (components (fst ?p))" using wc "3.prems"(2) by (rule "3.IH"(1))
  show ?case
  proof (cases "snd ?p = - 1")
    case True
    from "3.IH"(3) [OF refl prod.collapse _ wr P] True show ?thesis
      by (simp add: case_prod_beta)
  next
    case False
    from "3.IH"(2) [OF refl prod.collapse _ wr P] False show ?thesis
      by (simp add: case_prod_beta)
  qed
qed

lemma rootLoop_defined:
  "rootLoop L fuel cs st = Inr st' \<Longrightarrow> list_all wellFormedScene cs \<Longrightarrow> verticesDefined (components st)
     \<Longrightarrow> verticesDefined (components st')"
proof (induction cs arbitrary: st)
  case Nil
  then show ?case by simp
next
  case (Cons child rest)
  let ?p = "processNode L child st"
  from Cons.prems(2) have wc: "wellFormedScene child" and wr: "list_all wellFormedScene rest" by simp_all
  have P: "verticesDefined (components (fst ?p))" using wc Cons.prems(3) by (rule processNode_defined)
  show ?case
  proof (cases "snd ?p = - 1")
    case True
    with Cons.prems(1) have "rootLoop L fuel rest (fst ?p) = Inr st'" by (simp add: case_prod_beta)
    then show ?thesis using wr P by (rule Cons.IH)
  next
    case False
    from False Cons.prems(1) obtain verts where
      run: "rootLoop L fuel rest
              ((fst ?p)\<lparr> allVerticesWorld := allVerticesWorld (fst ?p) @ map (\<lambda>vec. applyMatrix4 L vec (o_matrix child)) verts,
                     buildItems := buildItems (fst ?p) @ [\<lparr> b_objectId = snd ?p, transformMatrix = o_matrix child \<rparr>] \<rparr>) = Inr st'"
      by (auto simp: case_prod_beta Let_def split: option.splits sum.splits)
    from run wr show ?thesis by (rule Cons.IH) (use P in simp)
  qed
qed

lemma rootChildren_wellFormed:
  "wellFormedScene object \<Longrightarrow> list_all wellFormedScene (rootChildren object)"
  by (cases object) (auto simp: rootChildren_def isGroupType_def)

lemma composeScene_defined:
  assumes "composeScene L fuel object = Inr st" "wellFormedScene object"
  shows "verticesDefined (components st)"
  using assms(1) unfolding composeScene_def
proof (rule rootLoop_defined)
  show "list_all wellFormedScene (rootChildren object)" using assms(2) by (rule rootChildren_wellFormed)
  show "verticesDefined (components emptyState)" by (simp add: verticesDefined_def emptyState_def)
qed

subsection \<open>The emitters and the whole export return on well-formed scenes\<close>

lemma mapE_total:
  assumes "\<And>x. x \<in> set xs \<Longrightarrow> \<exists>y. f x = Inr y"
  shows "\<exists>ys. mapE f xs = Inr ys"
  using assms
proof (induction xs)
  case Nil
  then show ?case by simp
next
  case (Cons x xs)
  from Cons.prems [of x] obtain y where "f x = Inr y" by auto
  moreover from Cons.IH Cons.prems obtain ys where "mapE f xs = Inr ys" by auto
  ultimately show ?case by simp
qed

lemma resourceXML_total:
  assumes "list_all (\<lambda>v. v \<noteq> None) (vertices c)"
  shows "\<exists>s. resourceXML L c = Inr s"
proof (cases "c_type c = Assembly")
  case True
  then show ?thesis by (simp add: resourceXML_def Let_def)
next
  case False
  have "\<exists>y. vertexXML L v = Inr y" if "v \<in> set (vertices c)" for v
    using that assms by (cases v) (auto simp: vertexXML_def list_all_iff)
  then obtain vs where "mapE (vertexXML L) (vertices c) = Inr vs"
    using mapE_total by blast
  with False show ?thesis by (simp add: resourceXML_def Let_def)
qed

lemma createMainModelXML_total:
  assumes "verticesDefined comps"
  shows "\<exists>s. createMainModelXML L comps items shift printConfig = Inr s"
proof -
  have "\<exists>y. resourceXML L c = Inr y" if "c \<in> set comps" for c
    using that assms by (intro resourceXML_total) (simp add: verticesDefined_def list_all_iff)
  then obtain rs where "mapE (resourceXML L) comps = Inr rs"
    using mapE_total by blast
  then show ?thesis by (simp add: createMainModelXML_def Let_def)
qed

lemma settingsLoop_total:
  assumes "goodTable comps" "length comps \<le> fuel"
  shows "\<forall>b \<in> set items. 1 \<le> b_objectId b \<and> b_objectId b \<le> int (length comps)
     \<Longrightarrow> \<exists>r. settingsLoop comps fuel items index acc = Inr r"
proof (induction items arbitrary: index acc)
  case Nil
  show ?case by (cases acc) simp
next
  case (Cons item rest)
  obtain objectsXml instancesXml assembleXml where acc: "acc = (objectsXml, instancesXml, assembleXml)"
    by (metis prod_cases3)
  from Cons.prems have r: "1 \<le> b_objectId item" "b_objectId item \<le> int (length comps)" by simp_all
  let ?k = "nat (b_objectId item) - 1"
  have f: "findComponent comps (b_objectId item) = Some (comps ! ?k)"
    using assms(1) r by (rule findComponent_good)
  have "?k < length comps" "?k < fuel" using r assms(2) by linarith+
  with assms(1) obtain ps where c: "collect comps fuel (comps ! ?k) = Inr ps"
    using collect_total by blast
  from Cons.prems have "\<forall>b \<in> set rest. 1 \<le> b_objectId b \<and> b_objectId b \<le> int (length comps)" by simp
  from Cons.IH [OF this] f c show ?case
    unfolding acc by (simp add: Let_def)
qed

lemma createModelSettingsXML_total:
  assumes "goodTable comps" "length comps \<le> fuel"
    and "\<forall>b \<in> set items. 1 \<le> b_objectId b \<and> b_objectId b \<le> int (length comps)"
  shows "\<exists>s. createModelSettingsXML comps fuel items = Inr s"
proof -
  from settingsLoop_total [OF assms] obtain r where "settingsLoop comps fuel items 0 ([], [], []) = Inr r"
    by blast
  then show ?thesis by (cases r) (simp add: createModelSettingsXML_def)
qed

lemma rootLoop_size:
  "rootLoop L fuel cs st = Inr st' \<Longrightarrow>
     length (components st') \<le> length (components st) + sum_list (map nodeCount cs)"
proof (induction cs arbitrary: st)
  case Nil
  then show ?case by simp
next
  case (Cons child rest)
  let ?p = "processNode L child st"
  have sz: "length (components (fst ?p)) \<le> length (components st) + nodeCount child"
    by (rule processNode_size)
  show ?case
  proof (cases "snd ?p = - 1")
    case True
    with Cons.prems have "rootLoop L fuel rest (fst ?p) = Inr st'" by (simp add: case_prod_beta)
    from Cons.IH [OF this] sz show ?thesis by simp
  next
    case False
    from False Cons.prems obtain verts where
      run: "rootLoop L fuel rest
              ((fst ?p)\<lparr> allVerticesWorld := allVerticesWorld (fst ?p) @ map (\<lambda>vec. applyMatrix4 L vec (o_matrix child)) verts,
                     buildItems := buildItems (fst ?p) @ [\<lparr> b_objectId = snd ?p, transformMatrix = o_matrix child \<rparr>] \<rparr>) = Inr st'"
      by (auto simp: case_prod_beta Let_def split: option.splits sum.splits)
    from Cons.IH [OF run] sz show ?thesis by simp
  qed
qed

lemma exportTo3MF_total:
  assumes "wellFormedScene object" "nodeCount object \<le> fuel"
  shows "\<exists>pkg. exportTo3MF L fuel object printJobConfig = Inr pkg"
proof -
  from assms(2) obtain st where run: "composeScene L fuel object = Inr st"
    using composeScene_total by blast
  have good: "goodTable (components st)"
    and items: "\<forall>b \<in> set (buildItems st). 1 \<le> b_objectId b \<and> b_objectId b \<le> int (length (components st))"
    using run by (rule composeScene_post)+
  have "length (components st) \<le> length (components emptyState) + sum_list (map nodeCount (rootChildren object))"
    using run unfolding composeScene_def by (rule rootLoop_size)
  with rootChildren_count [of object] assms(2) have len: "length (components st) \<le> fuel"
    by (simp add: emptyState_def)
  have "verticesDefined (components st)" using run assms(1) by (rule composeScene_defined)
  then obtain mainXml where m: "createMainModelXML L (components st) (buildItems st)
      (centeringShift (mergeConfig printJobConfig) (allVerticesWorld st)) (mergeConfig printJobConfig) = Inr mainXml"
    using createMainModelXML_total by blast
  from good len items obtain settingsXml where s: "createModelSettingsXML (components st) fuel (buildItems st) = Inr settingsXml"
    using createModelSettingsXML_total by blast
  from run m s show ?thesis by (simp add: exportTo3MF_def Let_def)
qed

lemma processNode_none:
  assumes "snd (processNode L node st) = - 1"
  shows "processNode L node st = (st, - 1)"
proof -
  have "node_post st (fst (processNode L node st)) (snd (processNode L node st))"
    by (rule processNode_post)
  with assms have "fst (processNode L node st) = st" by (simp add: node_post_def)
  with assms show ?thesis by (simp add: prod_eq_iff)
qed

subsection \<open>The points collected for centering; the bounding box\<close>













subsection \<open>What a returned package is made of\<close>

lemma exportTo3MF_Inr:
  assumes "exportTo3MF L fuel object printJobConfig = Inr pkg"
  obtains st mainModelXml modelSettingsXml where
    "composeScene L fuel object = Inr st"
    "createMainModelXML L (components st) (buildItems st)
       (centeringShift (mergeConfig printJobConfig) (allVerticesWorld st)) (mergeConfig printJobConfig) = Inr mainModelXml"
    "createModelSettingsXML (components st) fuel (buildItems st) = Inr modelSettingsXml"
    "entries pkg =
       [(''_rels/.rels'', relationshipsXML),
        (''3D/3dmodel.model'', mainModelXml),
        (''Metadata/model_settings.config'', modelSettingsXml),
        (''Metadata/project_settings.config'', createProjectSettingsConfig L (materials st) (mergeConfig printJobConfig)),
        (''[Content_Types].xml'', contentTypesXML)]"
proof -
  from assms obtain st where st: "composeScene L fuel object = Inr st"
    by (cases "composeScene L fuel object") (simp_all add: exportTo3MF_def Let_def)
  let ?shift = "centeringShift (mergeConfig printJobConfig) (allVerticesWorld st)"
  from assms st obtain m where m: "createMainModelXML L (components st) (buildItems st) ?shift (mergeConfig printJobConfig) = Inr m"
    by (cases "createMainModelXML L (components st) (buildItems st) ?shift (mergeConfig printJobConfig)")
       (simp_all add: exportTo3MF_def Let_def)
  from assms st m obtain s where s: "createModelSettingsXML (components st) fuel (buildItems st) = Inr s"
    by (cases "createModelSettingsXML (components st) fuel (buildItems st)")
       (simp_all add: exportTo3MF_def Let_def)
  from assms st m s have "entries pkg =
       [(''_rels/.rels'', relationshipsXML),
        (''3D/3dmodel.model'', m),
        (''Metadata/model_settings.config'', s),
        (''Metadata/project_settings.config'', createProjectSettingsConfig L (materials st) (mergeConfig printJobConfig)),
        (''[Content_Types].xml'', contentTypesXML)]"
    by (auto simp: exportTo3MF_def Let_def zip_file_def)
  with st m s show thesis by (rule that)
qed

lemma createMainModelXML_shape:
  assumes "createMainModelXML L comps items shift printConfig = Inr doc"
  obtains before after where
    "\<And>shift'. createMainModelXML L comps items shift' printConfig =
        Inr (before @ join nl (map (itemXML L shift') items) @ after)"
proof -
  from assms obtain rs where rs: "mapE (resourceXML L) comps = Inr rs"
    by (cases "mapE (resourceXML L) comps") (simp_all add: createMainModelXML_def)
  define before where \<open>before =
      ''<?xml version="1.0" encoding="UTF-8"?>'' @ nl
      @ ''<model unit="millimeter" xml:lang="en-US" xmlns="http://schemas.microsoft.com/3dmanufacturing/core/2015/02" xmlns:slic3rpe="http://schemas.slic3r.org/3mf/2017/06" xmlns:p="http://schemas.microsoft.com/3dmanufacturing/production/2015/06" requiredextensions="p">'' @ nl
      @ ''    '' @ join (nl @ ''    '') (metadataXML L printConfig) @ nl
      @ ''    <resources>'' @ nl
      @ join nl rs @ nl
      @ ''    </resources>'' @ nl
      @ ''    <build>'' @ nl\<close>
  define after where \<open>after = nl @ ''    </build>'' @ nl @ ''</model>''\<close>
  have "createMainModelXML L comps items shift' printConfig =
        Inr (before @ join nl (map (itemXML L shift') items) @ after)" for shift'
    unfolding createMainModelXML_def rs sum.case Let_def before_def after_def append_assoc ..
  then show thesis by (rule that)
qed

section \<open>The claims\<close>

text \<open>
  Claim C1. The component table that an export works on is the one \<open>composeScene\<close> returns.
  Its ids are 1, 2, ..., N in table order, which is the order of discovery, and every
  sub-component entry of a component carries an id from 1 up, strictly smaller than that of
  the component itself: children come before the assembly that refers to them. Moreover the
  traversal does return a table whenever the depth bound is at least the number of nodes.
\<close>

theorem component_ids_contiguous:
  "(\<forall>st. composeScene L fuel object = Inr st \<longrightarrow>
      map c_id (components st) = map int [1..<Suc (length (components st))] \<and>
      (\<forall>c \<in> set (components st). \<forall>sc \<in> set (subComponents c).
         1 \<le> sc_objectId sc \<and> sc_objectId sc < c_id c)) \<and>
   (nodeCount object \<le> fuel \<longrightarrow> (\<exists>st. composeScene L fuel object = Inr st))"
proof (intro conjI allI impI)
  fix st assume run: "composeScene L fuel object = Inr st"
  then have good: "goodTable (components st)" by (rule composeScene_post)
  show "map c_id (components st) = map int [1..<Suc (length (components st))]"
  proof (rule nth_equalityI)
    show "length (map c_id (components st)) = length (map int [1..<Suc (length (components st))])"
      by (simp del: upt_Suc)
    fix k assume "k < length (map c_id (components st))"
    then have k: "k < length (components st)" by simp
    then have "c_id (components st ! k) = int k + 1"
      using good by (simp add: goodTable_def goodComponent_def)
    with k show "map c_id (components st) ! k = map int [1..<Suc (length (components st))] ! k"
      by (simp add: nth_upt del: upt_Suc)
  qed
  show "\<forall>c \<in> set (components st). \<forall>sc \<in> set (subComponents c).
         1 \<le> sc_objectId sc \<and> sc_objectId sc < c_id c"
  proof (intro ballI)
    fix c sc assume c: "c \<in> set (components st)" and sc: "sc \<in> set (subComponents c)"
    from good c obtain k where "goodComponent k c" by (rule goodTable_elem)
    then show "1 \<le> sc_objectId sc \<and> sc_objectId sc < c_id c"
      using sc by (rule goodComponent_refs)
  qed
next
  assume "nodeCount object \<le> fuel"
  then show "\<exists>st. composeScene L fuel object = Inr st" by (rule composeScene_total)
qed

theorem component_ids_contiguous_witness:
  "nodeCount sampleScene \<le> 6 \<and>
   (\<exists>st. composeScene sampleRuntime 6 sampleScene = Inr st \<and>
      map c_id (components st) = [1, 2, 3] \<and>
      sc_objectId (subComponents (components st ! 2) ! 1) = 2)"
proof -
  have n: "nodeCount sampleScene \<le> 6" by code_simp
  with component_ids_contiguous [of sampleRuntime 6 sampleScene]
  obtain st where st: "composeScene sampleRuntime 6 sampleScene = Inr st" by blast
  have "length (components (projr (composeScene sampleRuntime 6 sampleScene))) = 3" by code_simp
  with st have len: "length (components st) = 3" by simp
  have "map sc_objectId (subComponents (components (projr (composeScene sampleRuntime 6 sampleScene)) ! 2)) = [1, 2]"
    by code_simp
  with st have sub: "map sc_objectId (subComponents (components st ! 2)) = [1, 2]" by simp
  from component_ids_contiguous [of sampleRuntime 6 sampleScene] st
  have "map c_id (components st) = map int [1..<Suc (length (components st))]" by blast
  with len have ids: "map c_id (components st) = [1, 2, 3]" by (simp add: upt_rec)
  from sub have "length (subComponents (components st ! 2)) = 2"
    by (metis length_map length_Cons list.size(3) numeral_2_eq_2)
  with sub have s2: "sc_objectId (subComponents (components st ! 2) ! 1) = 2"
    by (metis nth_map one_less_numeral_iff semiring_norm(76) nth_Cons_0 nth_Cons_Suc One_nat_def)
  have "composeScene sampleRuntime 6 sampleScene = Inr st \<and>
      map c_id (components st) = [1, 2, 3] \<and>
      sc_objectId (subComponents (components st ! 2) ! 1) = 2"
    using st ids s2 by simp
  then have "\<exists>st. composeScene sampleRuntime 6 sampleScene = Inr st \<and>
      map c_id (components st) = [1, 2, 3] \<and>
      sc_objectId (subComponents (components st ! 2) ! 1) = 2" ..
  with n show ?thesis ..
qed

text \<open>
  Claim C10. In the table of an export, every triangle of a mesh component carries three
  natural numbers below the number of vertices stored in that component; the same holds for
  the component that \<open>processMesh\<close> builds from any mesh. (The emitters print these
  indices; they do not look vertices up by them.)
\<close>

theorem triangle_indices_valid:
  "(\<forall>st. composeScene L fuel object = Inr st \<longrightarrow>
      (\<forall>c \<in> set (components st). c_type c = Mesh \<longrightarrow>
         (\<forall>t \<in> set (triangles c).
            v1 t < length (vertices c) \<and> v2 t < length (vertices c) \<and> v3 t < length (vertices c)))) \<and>
   (\<forall>t \<in> set (triangles (meshComponent L mesh materialInfo componentId)).
      v1 t < length (vertices (meshComponent L mesh materialInfo componentId)) \<and>
      v2 t < length (vertices (meshComponent L mesh materialInfo componentId)) \<and>
      v3 t < length (vertices (meshComponent L mesh materialInfo componentId)))"
proof (rule conjI; intro allI impI ballI)
  fix st c t
  assume run: "composeScene L fuel object = Inr st"
    and c: "c \<in> set (components st)" and t: "t \<in> set (triangles c)"
  from run have "goodTable (components st)" by (rule composeScene_post)
  then obtain k where "goodComponent k c" using c by (rule goodTable_elem)
  then show "v1 t < length (vertices c) \<and> v2 t < length (vertices c) \<and> v3 t < length (vertices c)"
    using t by (rule goodComponent_triangles)
next
  fix t assume t: "t \<in> set (triangles (meshComponent L mesh materialInfo componentId))"
  obtain i where inv: "loop_inv L (g_position (o_geometry mesh)) (vertexIndexAt (o_geometry mesh)) i
      (fst (meshGeometry L (o_geometry mesh))) (snd (meshGeometry L (o_geometry mesh)))"
    using meshGeometry_inv by blast
  from t have "t \<in> set (snd (meshGeometry L (o_geometry mesh)))" by (simp add: meshComponent_sel)
  with inv show "v1 t < length (vertices (meshComponent L mesh materialInfo componentId)) \<and>
      v2 t < length (vertices (meshComponent L mesh materialInfo componentId)) \<and>
      v3 t < length (vertices (meshComponent L mesh materialInfo componentId))"
    unfolding meshComponent_sel by (rule loop_inv_triangles_valid)
qed

theorem triangle_indices_valid_witness:
  "\<exists>st. composeScene sampleRuntime 6 sampleScene = Inr st \<and>
     c_type (components st ! 0) = Mesh \<and>
     triangles (components st ! 0) ! 1 = \<lparr> v1 = 0, v2 = 2, v3 = 3 \<rparr> \<and>
     length (vertices (components st ! 0)) = 4 \<and>
     v3 (triangles (components st ! 0) ! 1) < length (vertices (components st ! 0))"
proof -
  obtain st where run: "composeScene sampleRuntime 6 sampleScene = Inr st"
    and st: "st = projr (composeScene sampleRuntime 6 sampleScene)"
    by (rule sample_composed)
  let ?c = "components st ! 0"
  have ty: "map c_type (components st) = [Mesh, Mesh, Assembly]" unfolding st by (rule sample_types)
  have tr: "triangles ?c = [\<lparr> v1 = 0, v2 = 1, v3 = 2 \<rparr>, \<lparr> v1 = 0, v2 = 2, v3 = 3 \<rparr>]"
    unfolding st by (rule sample_triangles)
  have vs: "length (vertices ?c) = 4" unfolding st by (simp add: sample_vertices)
  from ty have len: "length (components st) = 3" by (metis length_map length_Cons list.size(3) numeral_3_eq_3)
  then have mem: "?c \<in> set (components st)" by simp
  from ty len have mesh: "c_type ?c = Mesh" by (metis nth_map nth_Cons_0 zero_less_numeral)
  from tr have t1: "triangles ?c ! 1 = \<lparr> v1 = 0, v2 = 2, v3 = 3 \<rparr>" by simp
  from tr have tm: "triangles ?c ! 1 \<in> set (triangles ?c)" by simp
  from triangle_indices_valid [of sampleRuntime 6 sampleScene] run mem mesh tm
  have "v3 (triangles ?c ! 1) < length (vertices ?c)" by blast
  with run mesh t1 vs show ?thesis by blast
qed



lemma find_first_append:
  "find P xs = Some x \<Longrightarrow> find P (xs @ ys) = Some x"
  by (induction xs) (auto split: if_splits)

lemma find_None_append:
  "find P xs = None \<Longrightarrow> P x \<Longrightarrow> find P (xs @ x # ys) = Some x"
  by (induction xs) (auto split: if_splits)

lemma resolveMaterial_hit:
  assumes "find (sameColor color) mats = Some m"
  shows "resolveMaterial nm color mats = (mats, m)"
  using assms by (simp add: resolveMaterial_def)

lemma resolveMaterial_miss:
  assumes "find (sameColor color) mats = None"
  shows "\<exists>m. resolveMaterial nm color mats = (mats @ [m], m) \<and> m_color m = color \<and>
           extruder m = length mats + 1 \<and> m_id m = length mats + 1"
  using assms by (simp add: resolveMaterial_def Let_def)

lemma resolveMaterial_found:
  "find (sameColor color) (fst (resolveMaterial nm color mats)) = Some (snd (resolveMaterial nm color mats))"
proof (cases "find (sameColor color) mats")
  case (Some m)
  then show ?thesis by (simp add: resolveMaterial_hit)
next
  case None
  then obtain m where m: "resolveMaterial nm color mats = (mats @ [m], m)" "m_color m = color"
    using resolveMaterial_miss by blast
  have "find (sameColor color) (mats @ m # []) = Some m"
    using None by (rule find_None_append) (simp add: sameColor_eq m(2))
  with m show ?thesis by simp
qed

lemma resolveMaterial_good:
  assumes "materialsGood mats"
  shows "materialsGood (fst (resolveMaterial nm color mats))"
proof (cases "find (sameColor color) mats")
  case (Some m)
  with assms show ?thesis by (simp add: resolveMaterial_hit)
next
  case None
  then obtain m where m: "resolveMaterial nm color mats = (mats @ [m], m)" "m_color m = color"
      "extruder m = length mats + 1" "m_id m = length mats + 1"
    using resolveMaterial_miss by blast
  from None have new: "color \<notin> set (map m_color mats)"
    by (auto simp: find_None_iff sameColor_eq)
  have d: "distinct (map m_color (mats @ [m]))"
    using assms new m(2) by (simp add: materialsGood_def)
  have e: "extruder ((mats @ [m]) ! k) = k + 1 \<and> m_id ((mats @ [m]) ! k) = k + 1"
    if "k < length (mats @ [m])" for k
  proof (cases "k < length mats")
    case True
    with assms show ?thesis by (simp add: materialsGood_def nth_append)
  next
    case False
    with that have "k = length mats" by simp
    with m(3,4) show ?thesis by simp
  qed
  from d e show ?thesis unfolding m(1) fst_conv materialsGood_def by blast
qed

lemma processMaterial_NoMaterial:
  "o_material mesh = NoMaterial \<Longrightarrow> processMaterial L mesh mats = (mats, None)"
  by (simp add: processMaterial_def)

lemma processMaterial_resolve:
  "o_material mesh \<noteq> NoMaterial \<Longrightarrow>
     processMaterial L mesh mats =
       (fst (resolveMaterial (o_name mesh) (materialColor L (firstMaterial (o_material mesh))) mats),
        Some (snd (resolveMaterial (o_name mesh) (materialColor L (firstMaterial (o_material mesh))) mats)))"
  by (simp add: processMaterial_def Let_def case_prod_beta)

lemma processMaterial_good:
  assumes "materialsGood mats"
  shows "materialsGood (fst (processMaterial L mesh mats))"
    and "snd (processMaterial L mesh mats) = Some m \<Longrightarrow> m \<in> set (fst (processMaterial L mesh mats))"
proof -
  show "materialsGood (fst (processMaterial L mesh mats))"
  proof (cases "o_material mesh = NoMaterial")
    case True
    with assms show ?thesis by (simp add: processMaterial_NoMaterial)
  next
    case False
    with assms show ?thesis by (simp add: processMaterial_resolve resolveMaterial_good)
  qed
  show "m \<in> set (fst (processMaterial L mesh mats))" if "snd (processMaterial L mesh mats) = Some m"
  proof (cases "o_material mesh = NoMaterial")
    case True
    with that show ?thesis by (simp add: processMaterial_NoMaterial)
  next
    case False
    let ?r = "resolveMaterial (o_name mesh) (materialColor L (firstMaterial (o_material mesh))) mats"
    have "find (sameColor (materialColor L (firstMaterial (o_material mesh)))) (fst ?r) = Some (snd ?r)"
      by (rule resolveMaterial_found)
    then have "snd ?r \<in> set (fst ?r)" by (auto simp: find_Some_iff)
    with False that show ?thesis by (simp add: processMaterial_resolve)
  qed
qed

lemma materialsShared_mesh:
  assumes "materialsShared st"
  shows "materialsShared (fst (processMesh L mesh st))"
proof -
  let ?r = "processMaterial L mesh (materials st)"
  have g: "materialsGood (materials st)"
    and old: "\<And>c m. c \<in> set (components st) \<Longrightarrow> material c = Some m \<Longrightarrow> m \<in> set (materials st)"
    using assms by (auto simp: materialsShared_def)
  have g': "materialsGood (fst ?r)" using g by (rule processMaterial_good)
  have sub: "set (materials st) \<subseteq> set (fst ?r)"
    using processMaterial_prefix [of "materials st" L mesh] by (auto simp: prefix_def)
  have "m \<in> set (fst ?r)"
    if c: "c \<in> set (components st @ [meshComponent L mesh (snd ?r) (int (length (components st)) + 1)])"
      and m: "material c = Some m" for c m
  proof (cases "c \<in> set (components st)")
    case True
    with old m sub show ?thesis by blast
  next
    case False
    with c have "c = meshComponent L mesh (snd ?r) (int (length (components st)) + 1)" by simp
    with m have "snd ?r = Some m" by (simp add: meshComponent_sel)
    with g show ?thesis by (rule processMaterial_good(2))
  qed
  with g' show ?thesis
    unfolding materialsShared_def processMesh_frame by blast
qed

lemma processNode_shared:
  "materialsShared st \<Longrightarrow> materialsShared (fst (processNode L node st))"
  and processChildren_shared:
  "materialsShared st \<Longrightarrow> materialsShared (fst (processChildren L node' cs st subs))"
proof (induction L node st and L node' cs st subs rule: processNode_processChildren.induct)
  case (1 L t nm m mw cs g mt st)
  let ?node = "Object3D t nm m mw cs g mt"
  show ?case
  proof (cases "t = ''Mesh''")
    case True
    with "1.prems" show ?thesis by (simp add: materialsShared_mesh)
  next
    case notMesh: False
    show ?thesis
    proof (cases "isGroupType t")
      case False
      with notMesh "1.prems" show ?thesis by simp
    next
      case True
      have "materialsShared (fst (processChildren L ?node cs st []))"
        using "1.prems" by (rule "1.IH" [OF notMesh True])
      with notMesh True show ?thesis
        by (simp add: case_prod_beta Let_def materialsShared_def)
    qed
  qed
next
  case (2 L node st subs)
  then show ?case by simp
next
  case (3 L node child rest st subs)
  let ?p = "processNode L child st"
  have P: "materialsShared (fst ?p)" using "3.prems" by (rule "3.IH"(1))
  show ?case
  proof (cases "snd ?p = - 1")
    case True
    from "3.IH"(3) [OF refl prod.collapse _ P] True show ?thesis
      by (simp add: case_prod_beta)
  next
    case False
    from "3.IH"(2) [OF refl prod.collapse _ P] False show ?thesis
      by (simp add: case_prod_beta)
  qed
qed

lemma rootLoop_shared:
  "rootLoop L fuel cs st = Inr st' \<Longrightarrow> materialsShared st \<Longrightarrow> materialsShared st'"
proof (induction cs arbitrary: st)
  case Nil
  then show ?case by simp
next
  case (Cons child rest)
  let ?p = "processNode L child st"
  have P: "materialsShared (fst ?p)" using Cons.prems(2) by (rule processNode_shared)
  show ?case
  proof (cases "snd ?p = - 1")
    case True
    with Cons.prems(1) have "rootLoop L fuel rest (fst ?p) = Inr st'" by (simp add: case_prod_beta)
    then show ?thesis using P by (rule Cons.IH)
  next
    case False
    from False Cons.prems(1) obtain verts where
      run: "rootLoop L fuel rest
              ((fst ?p)\<lparr> allVerticesWorld := allVerticesWorld (fst ?p) @ map (\<lambda>vec. applyMatrix4 L vec (o_matrix child)) verts,
                     buildItems := buildItems (fst ?p) @ [\<lparr> b_objectId = snd ?p, transformMatrix = o_matrix child \<rparr>] \<rparr>) = Inr st'"
      by (auto simp: case_prod_beta Let_def split: option.splits sum.splits)
    from run show ?thesis by (rule Cons.IH) (use P in \<open>simp add: materialsShared_def\<close>)
  qed
qed

lemma composeScene_shared:
  assumes "composeScene L fuel object = Inr st"
  shows "materialsShared st"
  using assms unfolding composeScene_def
  by (rule rootLoop_shared) (simp add: materialsShared_def materialsGood_def emptyState_def)

lemma materialsGood_same_color:
  assumes "materialsGood mats" "m \<in> set mats" "m' \<in> set mats" "m_color m = m_color m'"
  shows "m = m'"
proof -
  from assms(1) have "inj_on m_color (set mats)"
    by (simp add: materialsGood_def distinct_map)
  then show ?thesis using assms(4,2,3) by (rule inj_onD)
qed

text \<open>
  Claim C4. Resolving a colour against the material list: the material returned has exactly
  that colour and is in the list afterwards; the old list is a prefix of the new one. If the
  list already held a material of that colour, the list is unchanged and the material is one
  of its entries; if not, the material returned is the single entry appended, with extruder
  and id one more than the old length. Resolving the same colour again later, after any
  further entries, returns the same material and adds nothing. Over a whole subtree
  \<open>processNode\<close> only extends the material list.

  \<open>processMesh\<close> is where this happens in an export: for a mesh with a material it
  resolves the colour of the mesh (gray when the material has none) against the export's
  list, keeps the list that comes back and stores the material that comes back in the
  component it appends; for a mesh without material the list stays and the component has
  none. So when a second mesh of the same colour is processed at any later point, its
  component gets the very material of the first and the list does not grow. In the tables
  of every export the colours of the list are pairwise different, entry \<open>k\<close> has extruder
  \<open>k + 1\<close>, every material of a component is an entry of the list, and two components
  whose materials have the same colour have the same material.
\<close>

theorem material_resolution:
  "m_color (snd (resolveMaterial nm color mats)) = color \<and>
   snd (resolveMaterial nm color mats) \<in> set (fst (resolveMaterial nm color mats)) \<and>
   prefix mats (fst (resolveMaterial nm color mats)) \<and>
   ((\<exists>m \<in> set mats. m_color m = color) \<longrightarrow>
      fst (resolveMaterial nm color mats) = mats \<and> snd (resolveMaterial nm color mats) \<in> set mats) \<and>
   ((\<forall>m \<in> set mats. m_color m \<noteq> color) \<longrightarrow>
      fst (resolveMaterial nm color mats) = mats @ [snd (resolveMaterial nm color mats)] \<and>
      extruder (snd (resolveMaterial nm color mats)) = length mats + 1 \<and>
      m_id (snd (resolveMaterial nm color mats)) = length mats + 1) \<and>
   resolveMaterial nm' color (fst (resolveMaterial nm color mats) @ later) =
     (fst (resolveMaterial nm color mats) @ later, snd (resolveMaterial nm color mats)) \<and>
   prefix (materials st) (materials (fst (processNode L node st))) \<and>
   (o_material mesh = NoMaterial \<longrightarrow>
      materials (fst (processMesh L mesh st)) = materials st \<and>
      material (last (components (fst (processMesh L mesh st)))) = None) \<and>
   (o_material mesh \<noteq> NoMaterial \<longrightarrow>
      materials (fst (processMesh L mesh st)) =
        fst (resolveMaterial (o_name mesh) (materialColor L (firstMaterial (o_material mesh))) (materials st)) \<and>
      material (last (components (fst (processMesh L mesh st)))) =
        Some (snd (resolveMaterial (o_name mesh) (materialColor L (firstMaterial (o_material mesh))) (materials st)))) \<and>
   (o_material mesh \<noteq> NoMaterial \<and> o_material mesh' \<noteq> NoMaterial \<and>
    materialColor L (firstMaterial (o_material mesh')) = materialColor L (firstMaterial (o_material mesh)) \<and>
    prefix (materials (fst (processMesh L mesh st))) (materials st') \<longrightarrow>
      materials (fst (processMesh L mesh' st')) = materials st' \<and>
      material (last (components (fst (processMesh L mesh' st')))) =
        material (last (components (fst (processMesh L mesh st))))) \<and>
   (\<forall>stf. composeScene L fuel object = Inr stf \<longrightarrow>
      distinct (map m_color (materials stf)) \<and>
      (\<forall>k < length (materials stf). extruder (materials stf ! k) = k + 1) \<and>
      (\<forall>c \<in> set (components stf). \<forall>m. material c = Some m \<longrightarrow> m \<in> set (materials stf)) \<and>
      (\<forall>c \<in> set (components stf). \<forall>c' \<in> set (components stf). \<forall>m m'.
         material c = Some m \<and> material c' = Some m' \<and> m_color m = m_color m' \<longrightarrow> m = m'))"
proof -
  let ?r = "resolveMaterial nm color mats"
  have found: "find (sameColor color) (fst ?r) = Some (snd ?r)" by (rule resolveMaterial_found)
  then have mem: "snd ?r \<in> set (fst ?r)" and same: "sameColor color (snd ?r)"
    by (auto simp: find_Some_iff)
  from same have a: "m_color (snd ?r) = color" by (simp add: sameColor_eq)
  have c: "prefix mats (fst ?r)" by (rule resolveMaterial_prefix)
  have d: "fst ?r = mats \<and> snd ?r \<in> set mats" if "\<exists>m \<in> set mats. m_color m = color"
  proof -
    from that have "find (sameColor color) mats \<noteq> None"
      by (auto simp: find_None_iff sameColor_eq)
    then obtain m where m: "find (sameColor color) mats = Some m" by auto
    then have "?r = (mats, m)" by (rule resolveMaterial_hit)
    moreover from m have "m \<in> set mats" by (auto simp: find_Some_iff)
    ultimately show ?thesis by simp
  qed
  have e: "fst ?r = mats @ [snd ?r] \<and> extruder (snd ?r) = length mats + 1 \<and> m_id (snd ?r) = length mats + 1"
    if "\<forall>m \<in> set mats. m_color m \<noteq> color"
  proof -
    from that have "find (sameColor color) mats = None"
      by (auto simp: find_None_iff sameColor_eq)
    then obtain m where "?r = (mats @ [m], m)" "extruder m = length mats + 1" "m_id m = length mats + 1"
      using resolveMaterial_miss by blast
    then show ?thesis by simp
  qed
  have "find (sameColor color) (fst ?r @ later) = Some (snd ?r)"
    using found by (rule find_first_append)
  then have f: "resolveMaterial nm' color (fst ?r @ later) = (fst ?r @ later, snd ?r)"
    by (rule resolveMaterial_hit)
  have g: "prefix (materials st) (materials (fst (processNode L node st)))"
    using processNode_post [of st L node] by (simp add: node_post_def)
  have h: "materials (fst (processMesh L mesh st)) = materials st \<and>
      material (last (components (fst (processMesh L mesh st)))) = None"
    if "o_material mesh = NoMaterial"
    using that by (simp add: processMesh_frame meshComponent_sel processMaterial_NoMaterial)
  have i: "materials (fst (processMesh L mesh st)) =
        fst (resolveMaterial (o_name mesh) (materialColor L (firstMaterial (o_material mesh))) (materials st)) \<and>
      material (last (components (fst (processMesh L mesh st)))) =
        Some (snd (resolveMaterial (o_name mesh) (materialColor L (firstMaterial (o_material mesh))) (materials st)))"
    if "o_material mesh \<noteq> NoMaterial" for mesh st
    using that by (simp add: processMesh_frame meshComponent_sel processMaterial_resolve)
  have j: "materials (fst (processMesh L mesh' st')) = materials st' \<and>
      material (last (components (fst (processMesh L mesh' st')))) =
        material (last (components (fst (processMesh L mesh st))))"
    if hyp: "o_material mesh \<noteq> NoMaterial \<and> o_material mesh' \<noteq> NoMaterial \<and>
      materialColor L (firstMaterial (o_material mesh')) = materialColor L (firstMaterial (o_material mesh)) \<and>
      prefix (materials (fst (processMesh L mesh st))) (materials st')"
  proof -
    let ?col = "materialColor L (firstMaterial (o_material mesh))"
    let ?r1 = "resolveMaterial (o_name mesh) ?col (materials st)"
    from hyp i [of mesh st] have m1: "materials (fst (processMesh L mesh st)) = fst ?r1"
      and c1: "material (last (components (fst (processMesh L mesh st)))) = Some (snd ?r1)"
      by simp_all
    from hyp m1 obtain ext where ext: "materials st' = fst ?r1 @ ext"
      by (auto simp: prefix_def)
    have "find (sameColor ?col) (fst ?r1) = Some (snd ?r1)" by (rule resolveMaterial_found)
    then have "find (sameColor ?col) (fst ?r1 @ ext) = Some (snd ?r1)" by (rule find_first_append)
    then have "resolveMaterial (o_name mesh') ?col (materials st') = (materials st', snd ?r1)"
      unfolding ext by (rule resolveMaterial_hit)
    with hyp i [of mesh' st'] c1 show ?thesis by simp
  qed
  have k: "distinct (map m_color (materials stf)) \<and>
      (\<forall>k < length (materials stf). extruder (materials stf ! k) = k + 1) \<and>
      (\<forall>c \<in> set (components stf). \<forall>m. material c = Some m \<longrightarrow> m \<in> set (materials stf)) \<and>
      (\<forall>c \<in> set (components stf). \<forall>c' \<in> set (components stf). \<forall>m m'.
         material c = Some m \<and> material c' = Some m' \<and> m_color m = m_color m' \<longrightarrow> m = m')"
    if "composeScene L fuel object = Inr stf" for stf
  proof -
    from that have sh: "materialsShared stf" by (rule composeScene_shared)
    then have good: "materialsGood (materials stf)"
      and memb: "\<And>c m. c \<in> set (components stf) \<Longrightarrow> material c = Some m \<Longrightarrow> m \<in> set (materials stf)"
      by (auto simp: materialsShared_def)
    have k1: "distinct (map m_color (materials stf))"
      and k2: "\<forall>k < length (materials stf). extruder (materials stf ! k) = k + 1"
      using good by (simp_all add: materialsGood_def)
    have k3: "\<forall>c \<in> set (components stf). \<forall>m. material c = Some m \<longrightarrow> m \<in> set (materials stf)"
      using memb by blast
    have k4: "\<forall>c \<in> set (components stf). \<forall>c' \<in> set (components stf). \<forall>m m'.
         material c = Some m \<and> material c' = Some m' \<and> m_color m = m_color m' \<longrightarrow> m = m'"
    proof (intro ballI allI impI)
      fix c c' m m'
      assume "c \<in> set (components stf)" "c' \<in> set (components stf)"
        and "material c = Some m \<and> material c' = Some m' \<and> m_color m = m_color m'"
      then have "m \<in> set (materials stf)" "m' \<in> set (materials stf)" "m_color m = m_color m'"
        using memb by auto
      with good show "m = m'" by (rule materialsGood_same_color)
    qed
    from k1 k2 k3 k4 show ?thesis by (intro conjI)
  qed
  have d': "(\<exists>m \<in> set mats. m_color m = color) \<longrightarrow> fst ?r = mats \<and> snd ?r \<in> set mats"
    using d by blast
  have e': "(\<forall>m \<in> set mats. m_color m \<noteq> color) \<longrightarrow>
      fst ?r = mats @ [snd ?r] \<and> extruder (snd ?r) = length mats + 1 \<and> m_id (snd ?r) = length mats + 1"
    using e by blast
  have h': "o_material mesh = NoMaterial \<longrightarrow>
      materials (fst (processMesh L mesh st)) = materials st \<and>
      material (last (components (fst (processMesh L mesh st)))) = None"
    using h by blast
  have i': "o_material mesh \<noteq> NoMaterial \<longrightarrow>
      materials (fst (processMesh L mesh st)) =
        fst (resolveMaterial (o_name mesh) (materialColor L (firstMaterial (o_material mesh))) (materials st)) \<and>
      material (last (components (fst (processMesh L mesh st)))) =
        Some (snd (resolveMaterial (o_name mesh) (materialColor L (firstMaterial (o_material mesh))) (materials st)))"
    using i [of mesh st] by blast
  have j': "o_material mesh \<noteq> NoMaterial \<and> o_material mesh' \<noteq> NoMaterial \<and>
    materialColor L (firstMaterial (o_material mesh')) = materialColor L (firstMaterial (o_material mesh)) \<and>
    prefix (materials (fst (processMesh L mesh st))) (materials st') \<longrightarrow>
      materials (fst (processMesh L mesh' st')) = materials st' \<and>
      material (last (components (fst (processMesh L mesh' st')))) =
        material (last (components (fst (processMesh L mesh st))))"
    using j by (rule impI)
  have k': "\<forall>stf. composeScene L fuel object = Inr stf \<longrightarrow>
      distinct (map m_color (materials stf)) \<and>
      (\<forall>k < length (materials stf). extruder (materials stf ! k) = k + 1) \<and>
      (\<forall>c \<in> set (components stf). \<forall>m. material c = Some m \<longrightarrow> m \<in> set (materials stf)) \<and>
      (\<forall>c \<in> set (components stf). \<forall>c' \<in> set (components stf). \<forall>m m'.
         material c = Some m \<and> material c' = Some m' \<and> m_color m = m_color m' \<longrightarrow> m = m')"
    using k by (intro allI impI)
  show ?thesis
    by (intro conjI) (fact a, fact mem, fact c, fact d', fact e', fact f, fact g, fact h', fact i', fact j', fact k')
qed

theorem material_resolution_witness:
  "extruder (snd (resolveMaterial ''A'' (Color 1 0 0) [])) = 1 \<and>
   fst (resolveMaterial ''B'' (Color 1 0 0) (fst (resolveMaterial ''A'' (Color 1 0 0) []))) =
     fst (resolveMaterial ''A'' (Color 1 0 0) []) \<and>
   snd (resolveMaterial ''B'' (Color 1 0 0) (fst (resolveMaterial ''A'' (Color 1 0 0) []))) =
     snd (resolveMaterial ''A'' (Color 1 0 0) []) \<and>
   material (last (components (fst (processMesh sampleRuntime squareMesh emptyState)))) =
     Some (snd (resolveMaterial ''Square'' (Color 1 0 0) [])) \<and>
   materials (fst (processMesh sampleRuntime squareMesh (fst (processMesh sampleRuntime squareMesh emptyState)))) =
     materials (fst (processMesh sampleRuntime squareMesh emptyState)) \<and>
   material (last (components (fst (processMesh sampleRuntime squareMesh
       (fst (processMesh sampleRuntime squareMesh emptyState)))))) =
     material (last (components (fst (processMesh sampleRuntime squareMesh emptyState)))) \<and>
   (\<exists>st. composeScene sampleRuntime 6 sampleScene = Inr st \<and> distinct (map m_color (materials st)))"
proof -
  let ?r = "resolveMaterial ''A'' (Color 1 0 0) []"
  let ?st1 = "fst (processMesh sampleRuntime squareMesh emptyState)"
  note inst = material_resolution [where nm = "''A''" and color = "Color 1 0 0" and mats = "[]"
      and nm' = "''B''" and later = "[]" and L = sampleRuntime and mesh = squareMesh
      and mesh' = squareMesh and st = emptyState
      and st' = "fst (processMesh sampleRuntime squareMesh emptyState)" and fuel = 6 and object = sampleScene]
  have none: "\<forall>m \<in> set ([] :: MaterialInfo list). m_color m \<noteq> Color 1 0 0" by simp
  with inst have ext: "extruder (snd ?r) = length ([] :: MaterialInfo list) + 1" by blast
  from inst have again: "resolveMaterial ''B'' (Color 1 0 0) (fst ?r @ []) = (fst ?r @ [], snd ?r)" by blast
  have mat: "o_material squareMesh \<noteq> NoMaterial" by (simp add: squareMesh_def)
  with inst have "material (last (components ?st1)) =
      Some (snd (resolveMaterial (o_name squareMesh)
        (materialColor sampleRuntime (firstMaterial (o_material squareMesh))) (materials emptyState)))"
    by blast
  then have one: "material (last (components ?st1)) = Some (snd (resolveMaterial ''Square'' (Color 1 0 0) []))"
    by (simp add: squareMesh_def materialColor_def firstMaterial_def emptyState_def)
  have hyp: "o_material squareMesh \<noteq> NoMaterial \<and> o_material squareMesh \<noteq> NoMaterial \<and>
      materialColor sampleRuntime (firstMaterial (o_material squareMesh)) =
        materialColor sampleRuntime (firstMaterial (o_material squareMesh)) \<and>
      prefix (materials ?st1) (materials ?st1)"
    using mat by simp
  with inst have two: "materials (fst (processMesh sampleRuntime squareMesh ?st1)) = materials ?st1 \<and>
      material (last (components (fst (processMesh sampleRuntime squareMesh ?st1)))) =
        material (last (components ?st1))"
    by blast
  obtain st where run: "composeScene sampleRuntime 6 sampleScene = Inr st"
    by (rule sample_composed)
  with inst have "distinct (map m_color (materials st))" by blast
  with run have three: "\<exists>st. composeScene sampleRuntime 6 sampleScene = Inr st \<and> distinct (map m_color (materials st))"
    by blast
  from ext again one two three show ?thesis by simp
qed

text \<open>
  Claim C2. When the root is a node of type \<^verbatim>\<open>'Group'\<close> whose children are exactly two nodes
  of type \<^verbatim>\<open>'Mesh'\<close>, the traversal returns (for a depth bound of at least 2) a table of three
  components: two meshes with ids 1 and 2, then one assembly with id 3 whose sub-components
  are 1 and 2, each with the child's matrix relative to the group; and one build item, for
  object 3, with the group's own matrix.
\<close>

theorem group_of_two_meshes:
  assumes "o_type object = ''Group''" and "o_children object = [a, b]"
    and "o_type a = ''Mesh''" and "o_type b = ''Mesh''" and "2 \<le> fuel"
  shows "\<exists>st. composeScene L fuel object = Inr st \<and>
     map c_id (components st) = [1, 2, 3] \<and>
     map c_type (components st) = [Mesh, Mesh, Assembly] \<and>
     map sc_objectId (subComponents (components st ! 2)) = [1, 2] \<and>
     map sc_transform (subComponents (components st ! 2)) = [relMatrix L a object, relMatrix L b object] \<and>
     map b_objectId (buildItems st) = [3] \<and>
     map transformMatrix (buildItems st) = [o_matrix object]"
proof -
  define st1 where "st1 = fst (processMesh L a emptyState)"
  define st2 where "st2 = fst (processMesh L b st1)"
  define ma where "ma = meshComponent L a (snd (processMaterial L a [])) 1"
  define mb where "mb = meshComponent L b (snd (processMaterial L b (materials st1))) 2"
  define subs where "subs = [\<lparr> sc_objectId = 1, sc_transform = relMatrix L a object \<rparr>,
                             \<lparr> sc_objectId = 2, sc_transform = relMatrix L b object \<rparr>]"
  define asm where "asm = \<lparr> c_id = 3, c_type = Assembly, vertices = [], triangles = [],
                  material = None, subComponents = subs,
                  c_name = (if o_name object \<noteq> [] then o_name object else ''Group-'' @ str_of_int 3) \<rparr>"
  define st3 where "st3 = st2\<lparr> components := components st2 @ [asm] \<rparr>"
  have c1: "components st1 = [ma]" and r1: "snd (processMesh L a emptyState) = 1"
    by (simp_all add: st1_def ma_def processMesh_frame emptyState_def)
  have c2: "components st2 = [ma, mb]" and r2: "snd (processMesh L b st1) = 2"
    by (simp_all add: st2_def mb_def processMesh_frame c1)
  have b2: "buildItems st2 = []"
    by (simp add: st2_def st1_def processMesh_frame emptyState_def)
  have n1: "processNode L a emptyState = (st1, 1)"
    unfolding processNode_Mesh [OF assms(3)] st1_def using r1 by (simp add: prod_eq_iff)
  have n2: "processNode L b st1 = (st2, 2)"
    unfolding processNode_Mesh [OF assms(4)] st2_def using r2 by (simp add: prod_eq_iff)
  have kids: "processChildren L object [a, b] emptyState [] = (st2, subs)"
    by (simp add: n1 n2 subs_def)
  have grp: "o_type object \<noteq> ''Mesh''" "isGroupType (o_type object)" "o_type object \<noteq> ''Scene''"
    using assms(1) by (simp_all add: isGroupType_def)
  have node: "processNode L object emptyState = (st3, 3)"
    unfolding processNode_group [OF grp(1,2)] assms(2) kids
    by (simp add: Let_def subs_def st3_def asm_def c2)
  have c3: "components st3 = [ma, mb, asm]" and b3: "buildItems st3 = []"
    by (simp_all add: st3_def c2 b2)
  from assms(5) obtain n where fuel: "fuel = Suc (Suc n)"
    by (metis Suc_le_D numeral_2_eq_2 Suc_le_mono)
  have ids: "c_id ma = 1" "c_id mb = 2" "c_type ma = Mesh" "c_type mb = Mesh"
    by (simp_all add: ma_def mb_def meshComponent_sel)
  have asm_sel: "c_id asm = 3" "c_type asm = Assembly" "subComponents asm = subs"
    by (simp_all add: asm_def)
  have f3: "findComponent [ma, mb, asm] 3 = Some asm"
    and f1: "findComponent [ma, mb, asm] 1 = Some ma"
    and f2: "findComponent [ma, mb, asm] 2 = Some mb"
    by (simp_all add: findComponent_def ids asm_sel)
  have gma: "getVerts L [ma, mb, asm] (Suc n) ma = Inr (map toVector3 (vertices ma))"
    and gmb: "getVerts L [ma, mb, asm] (Suc n) mb = Inr (map toVector3 (vertices mb))"
    by (simp_all add: ids)
  define verts where "verts =
      map (\<lambda>v. applyMatrix4 L v (relMatrix L a object)) (map toVector3 (vertices ma)) @
      map (\<lambda>v. applyMatrix4 L v (relMatrix L b object)) (map toVector3 (vertices mb))"
  have gv: "getVerts L [ma, mb, asm] fuel asm = Inr verts"
    unfolding fuel
    by (subst getVerts.simps(2)) (simp add: asm_sel subs_def f1 f2 gma gmb verts_def del: getVerts.simps)
  define st4 where "st4 = st3\<lparr> allVerticesWorld := allVerticesWorld st3 @
        map (\<lambda>vec. applyMatrix4 L vec (o_matrix object)) verts,
      buildItems := buildItems st3 @ [\<lparr> b_objectId = 3, transformMatrix = o_matrix object \<rparr>] \<rparr>"
  have run: "composeScene L fuel object = Inr st4"
    unfolding composeScene_def rootChildren_def
    by (simp add: grp(3) node c3 f3 gv st4_def Let_def)
  have "map c_id (components st4) = [1, 2, 3]"
    "map c_type (components st4) = [Mesh, Mesh, Assembly]"
    "map sc_objectId (subComponents (components st4 ! 2)) = [1, 2]"
    "map sc_transform (subComponents (components st4 ! 2)) = [relMatrix L a object, relMatrix L b object]"
    "map b_objectId (buildItems st4) = [3]"
    "map transformMatrix (buildItems st4) = [o_matrix object]"
    by (simp_all add: st4_def c3 b3 ids asm_sel subs_def)
  with run show ?thesis by (intro exI [of _ st4] conjI)
qed

theorem group_of_two_meshes_witness:
  "\<exists>st. composeScene sampleRuntime 2 sampleGroup = Inr st \<and>
     map c_id (components st) = [1, 2, 3] \<and>
     map c_type (components st) = [Mesh, Mesh, Assembly] \<and>
     map sc_objectId (subComponents (components st ! 2)) = [1, 2] \<and>
     map b_objectId (buildItems st) = [3]"
proof -
  have "o_type sampleGroup = ''Group''" "o_children sampleGroup = [squareMesh, triangleMesh]"
    "o_type squareMesh = ''Mesh''" "o_type triangleMesh = ''Mesh''" "(2::nat) \<le> 2"
    by (simp_all add: sampleGroup_def squareMesh_def triangleMesh_def)
  from group_of_two_meshes [OF this, of sampleRuntime] show ?thesis
    by (elim exE conjE, intro exI conjI) assumption+
qed

text \<open>
  Claim C8. A node whose type is none of \<^verbatim>\<open>'Mesh'\<close>, \<^verbatim>\<open>'Group'\<close>, \<^verbatim>\<open>'Object3D'\<close>, \<^verbatim>\<open>'Scene'\<close>
  makes \<open>processNode\<close> return \<open>- 1\<close> and leave the tables as they were; so does a group
  whose children gave no sub-component. A node that returns \<open>- 1\<close> is passed over by the
  top-level loop (no build item, no exception) and by the loop over the children of its
  parent (no sub-component entry). The export of a well-formed scene returns a package,
  whatever nodes of unknown type and empty groups the scene holds, once the depth bound is
  at least the number of nodes.
\<close>

theorem unsupported_nodes_and_empty_groups_are_skipped:
  "(o_type node \<noteq> ''Mesh'' \<and> \<not> isGroupType (o_type node) \<longrightarrow> processNode L node st = (st, - 1)) \<and>
   (isGroupType (o_type node) \<and> snd (processChildren L node (o_children node) st []) = [] \<longrightarrow>
      processNode L node st = (st, - 1)) \<and>
   (snd (processNode L node st) = - 1 \<longrightarrow>
      rootLoop L fuel (node # rest) st = rootLoop L fuel rest st \<and>
      processChildren L parent (node # rest) st subs = processChildren L parent rest st subs) \<and>
   (wellFormedScene object \<and> nodeCount object \<le> fuel \<longrightarrow>
      (\<exists>pkg. exportTo3MF L fuel object printJobConfig = Inr pkg))"
proof -
  have a: "processNode L node st = (st, - 1)" if "o_type node \<noteq> ''Mesh'' \<and> \<not> isGroupType (o_type node)"
    using that by (simp add: processNode_other)
  have b: "processNode L node st = (st, - 1)"
    if h: "isGroupType (o_type node) \<and> snd (processChildren L node (o_children node) st []) = []"
  proof -
    from h have nm: "o_type node \<noteq> ''Mesh''" by (auto simp: isGroupType_def)
    have "children_post st [] (fst (processChildren L node (o_children node) st []))
            (snd (processChildren L node (o_children node) st []))"
      by (rule processChildren_post)
    with h have "fst (processChildren L node (o_children node) st []) = st"
      by (simp add: children_post_def)
    with h nm show ?thesis by (simp add: processNode_group Let_def)
  qed
  have c: "rootLoop L fuel (node # rest) st = rootLoop L fuel rest st \<and>
      processChildren L parent (node # rest) st subs = processChildren L parent rest st subs"
    if "snd (processNode L node st) = - 1"
  proof -
    from that have "processNode L node st = (st, - 1)" by (rule processNode_none)
    then show ?thesis by simp
  qed
  have d: "\<exists>pkg. exportTo3MF L fuel object printJobConfig = Inr pkg"
    if "wellFormedScene object \<and> nodeCount object \<le> fuel"
    using that by (auto intro: exportTo3MF_total)
  from a b c d show ?thesis by blast
qed

theorem unsupported_nodes_and_empty_groups_are_skipped_witness:
  "processNode sampleRuntime lineNode emptyState = (emptyState, - 1) \<and>
   processNode sampleRuntime emptyGroup emptyState = (emptyState, - 1) \<and>
   rootLoop sampleRuntime 6 [lineNode, sampleGroup] emptyState = rootLoop sampleRuntime 6 [sampleGroup] emptyState \<and>
   (\<exists>pkg. exportTo3MF sampleRuntime 6 sampleScene noOverrides = Inr pkg)"
proof -
  have t1: "o_type lineNode \<noteq> ''Mesh'' \<and> \<not> isGroupType (o_type lineNode)"
    by (simp add: lineNode_def isGroupType_def)
  have t2: "isGroupType (o_type emptyGroup) \<and>
      snd (processChildren sampleRuntime emptyGroup (o_children emptyGroup) emptyState []) = []"
    by (simp add: emptyGroup_def isGroupType_def)
  have t3: "wellFormedScene sampleScene \<and> nodeCount sampleScene \<le> 6" by code_simp
  from unsupported_nodes_and_empty_groups_are_skipped [of lineNode sampleRuntime emptyState] t1
  have r1: "processNode sampleRuntime lineNode emptyState = (emptyState, - 1)" by blast
  then have "snd (processNode sampleRuntime lineNode emptyState) = - 1" by simp
  with unsupported_nodes_and_empty_groups_are_skipped [of lineNode sampleRuntime emptyState 6 "[sampleGroup]"]
  have r3: "rootLoop sampleRuntime 6 [lineNode, sampleGroup] emptyState = rootLoop sampleRuntime 6 [sampleGroup] emptyState"
    by blast
  from unsupported_nodes_and_empty_groups_are_skipped [of emptyGroup sampleRuntime emptyState] t2
  have r2: "processNode sampleRuntime emptyGroup emptyState = (emptyState, - 1)" by blast
  from unsupported_nodes_and_empty_groups_are_skipped
    [of _ sampleRuntime _ 6 _ _ _ sampleScene noOverrides] t3
  have r4: "\<exists>pkg. exportTo3MF sampleRuntime 6 sampleScene noOverrides = Inr pkg" by blast
  from r1 r2 r3 r4 show ?thesis by (intro conjI)
qed



lemma itemTransform_shifted:
  "itemTransform e shift =
     componentTransform (e(12 := e 12 + vx shift, 13 := e 13 + vy shift, 14 := e 14 + vz shift))"
  by (simp add: itemTransform_def componentTransform_def Let_def)

text \<open>
  Claim C6. The text emitted for a build item is its object id and the twelve numbers of its
  stored matrix, printed with five decimals, where the shift is added to the last three,
  the translation, and to nothing else: it is the text that an item with that translation
  gets without any shift. The text of a sub-component and of a vertex prints the stored
  matrix and the stored coordinates as they are. The main document depends on the shift
  through the item lines only: the rest of the text is the same for every shift. The
  emitters are functions from the tables to text, so the tables are what they were: the
  three documents of a returned package are computed from the very component table, build
  items and material list that the traversal returned, the second and third after the first.
\<close>

theorem centering_applied_once_at_emission:
  \<open>itemTransform e shift =
     take 9 (componentTransform e) @ [e 12 + vx shift, e 13 + vy shift, e 14 + vz shift] \<and>
   itemTransform e (Vector3 0 0 0) = componentTransform e \<and>
   (\<forall>doc. createMainModelXML L comps items shift printConfig = Inr doc \<longrightarrow>
      (\<exists>before after. \<forall>shift'. createMainModelXML L comps items shift' printConfig =
          Inr (before @ join nl (map (itemXML L shift') items) @ after))) \<and>
   (\<forall>pkg. exportTo3MF L fuel object printJobConfig = Inr pkg \<longrightarrow>
      (\<exists>st mainModelXml modelSettingsXml.
         composeScene L fuel object = Inr st \<and>
         createMainModelXML L (components st) (buildItems st)
           (centeringShift (mergeConfig printJobConfig) (allVerticesWorld st)) (mergeConfig printJobConfig)
           = Inr mainModelXml \<and>
         createModelSettingsXML (components st) fuel (buildItems st) = Inr modelSettingsXml \<and>
         entries pkg =
           [(''_rels/.rels'', relationshipsXML),
            (''3D/3dmodel.model'', mainModelXml),
            (''Metadata/model_settings.config'', modelSettingsXml),
            (''Metadata/project_settings.config'',
               createProjectSettingsConfig L (materials st) (mergeConfig printJobConfig)),
            (''[Content_Types].xml'', contentTypesXML)])) \<and>
   itemXML L shift item =
     ''<item objectid="'' @ str_of_int (b_objectId item) @ ''" transform="''
       @ join '' '' (map (toFixed5 L)
           [transformMatrix item 0, transformMatrix item 1, transformMatrix item 2,
            transformMatrix item 4, transformMatrix item 5, transformMatrix item 6,
            transformMatrix item 8, transformMatrix item 9, transformMatrix item 10,
            transformMatrix item 12 + vx shift, transformMatrix item 13 + vy shift,
            transformMatrix item 14 + vz shift])
       @ ''" printable="1" />'' \<and>
   itemXML L shift item =
     itemXML L (Vector3 0 0 0)
       (item\<lparr> transformMatrix := (transformMatrix item)
          (12 := transformMatrix item 12 + vx shift, 13 := transformMatrix item 13 + vy shift,
           14 := transformMatrix item 14 + vz shift) \<rparr>) \<and>
   subComponentXML L sc =
     ''<component objectid="'' @ str_of_int (sc_objectId sc) @ ''" transform="''
       @ join '' '' (map (toFixed5 L)
           [sc_transform sc 0, sc_transform sc 1, sc_transform sc 2,
            sc_transform sc 4, sc_transform sc 5, sc_transform sc 6,
            sc_transform sc 8, sc_transform sc 9, sc_transform sc 10,
            sc_transform sc 12, sc_transform sc 13, sc_transform sc 14])
       @ ''" />'' \<and>
   vertexXML L (Some p) =
     Inr (''<vertex x="'' @ toFixed5 L (vx p) @ ''" y="'' @ toFixed5 L (vy p)
            @ ''" z="'' @ toFixed5 L (vz p) @ ''" />'')\<close>
proof -
  have a: "itemTransform e shift =
     take 9 (componentTransform e) @ [e 12 + vx shift, e 13 + vy shift, e 14 + vz shift]"
    by (simp add: itemTransform_def componentTransform_def Let_def)
  have b: "itemTransform e (Vector3 0 0 0) = componentTransform e"
    by (simp add: itemTransform_def componentTransform_def Let_def)
  have c: "\<forall>doc. createMainModelXML L comps items shift printConfig = Inr doc \<longrightarrow>
      (\<exists>before after. \<forall>shift'. createMainModelXML L comps items shift' printConfig =
          Inr (before @ join nl (map (itemXML L shift') items) @ after))"
  proof (intro allI impI)
    fix doc assume "createMainModelXML L comps items shift printConfig = Inr doc"
    then show "\<exists>before after. \<forall>shift'. createMainModelXML L comps items shift' printConfig =
          Inr (before @ join nl (map (itemXML L shift') items) @ after)"
      by (rule createMainModelXML_shape) blast
  qed
  have d: "\<forall>pkg. exportTo3MF L fuel object printJobConfig = Inr pkg \<longrightarrow>
      (\<exists>st mainModelXml modelSettingsXml.
         composeScene L fuel object = Inr st \<and>
         createMainModelXML L (components st) (buildItems st)
           (centeringShift (mergeConfig printJobConfig) (allVerticesWorld st)) (mergeConfig printJobConfig)
           = Inr mainModelXml \<and>
         createModelSettingsXML (components st) fuel (buildItems st) = Inr modelSettingsXml \<and>
         entries pkg =
           [(''_rels/.rels'', relationshipsXML),
            (''3D/3dmodel.model'', mainModelXml),
            (''Metadata/model_settings.config'', modelSettingsXml),
            (''Metadata/project_settings.config'',
               createProjectSettingsConfig L (materials st) (mergeConfig printJobConfig)),
            (''[Content_Types].xml'', contentTypesXML)])"
  proof (intro allI impI)
    fix pkg assume "exportTo3MF L fuel object printJobConfig = Inr pkg"
    then show "\<exists>st mainModelXml modelSettingsXml.
         composeScene L fuel object = Inr st \<and>
         createMainModelXML L (components st) (buildItems st)
           (centeringShift (mergeConfig printJobConfig) (allVerticesWorld st)) (mergeConfig printJobConfig)
           = Inr mainModelXml \<and>
         createModelSettingsXML (components st) fuel (buildItems st) = Inr modelSettingsXml \<and>
         entries pkg =
           [(''_rels/.rels'', relationshipsXML),
            (''3D/3dmodel.model'', mainModelXml),
            (''Metadata/model_settings.config'', modelSettingsXml),
            (''Metadata/project_settings.config'',
               createProjectSettingsConfig L (materials st) (mergeConfig printJobConfig)),
            (''[Content_Types].xml'', contentTypesXML)]"
      by (rule exportTo3MF_Inr) blast
  qed
  have e: \<open>itemXML L shift item =
     ''<item objectid="'' @ str_of_int (b_objectId item) @ ''" transform="''
       @ join '' '' (map (toFixed5 L)
           [transformMatrix item 0, transformMatrix item 1, transformMatrix item 2,
            transformMatrix item 4, transformMatrix item 5, transformMatrix item 6,
            transformMatrix item 8, transformMatrix item 9, transformMatrix item 10,
            transformMatrix item 12 + vx shift, transformMatrix item 13 + vy shift,
            transformMatrix item 14 + vz shift])
       @ ''" printable="1" />''\<close>
    unfolding itemXML_def tStr_def itemTransform_def Let_def ..
  have f: "itemXML L shift item =
     itemXML L (Vector3 0 0 0)
       (item\<lparr> transformMatrix := (transformMatrix item)
          (12 := transformMatrix item 12 + vx shift, 13 := transformMatrix item 13 + vy shift,
           14 := transformMatrix item 14 + vz shift) \<rparr>)"
  proof -
    have z: "itemTransform m (Vector3 0 0 0) = componentTransform m" for m
      by (simp add: itemTransform_def componentTransform_def Let_def)
    show ?thesis
      unfolding itemXML_def itemTransform_shifted [of "transformMatrix item" shift] z by simp
  qed
  have g: \<open>subComponentXML L sc =
     ''<component objectid="'' @ str_of_int (sc_objectId sc) @ ''" transform="''
       @ join '' '' (map (toFixed5 L)
           [sc_transform sc 0, sc_transform sc 1, sc_transform sc 2,
            sc_transform sc 4, sc_transform sc 5, sc_transform sc 6,
            sc_transform sc 8, sc_transform sc 9, sc_transform sc 10,
            sc_transform sc 12, sc_transform sc 13, sc_transform sc 14])
       @ ''" />''\<close>
    unfolding subComponentXML_def tStr_def componentTransform_def ..
  have h: \<open>vertexXML L (Some p) =
     Inr (''<vertex x="'' @ toFixed5 L (vx p) @ ''" y="'' @ toFixed5 L (vy p)
            @ ''" z="'' @ toFixed5 L (vz p) @ ''" />'')\<close>
    unfolding vertexXML_def option.case ..
  show ?thesis
    by (intro conjI) (fact a, fact b, fact c, fact d, fact e, fact f, fact g, fact h)
qed

theorem centering_applied_once_at_emission_witness:
  \<open>itemTransform identityMatrix (Vector3 127 127 (- 1)) = [1, 0, 0, 0, 1, 0, 0, 0, 1, 127, 127, - 1] \<and>
   itemXML sampleRuntime (Vector3 127 127 (- 1)) \<lparr> b_objectId = 3, transformMatrix = identityMatrix \<rparr> =
     ''<item objectid="3" transform="1.00000 0.00000 0.00000 0.00000 1.00000 0.00000 0.00000 0.00000 1.00000 127.00000 127.00000 -1.00000" printable="1" />'' \<and>
   (\<exists>pkg st. exportTo3MF sampleRuntime 6 sampleScene noOverrides = Inr pkg \<and>
      composeScene sampleRuntime 6 sampleScene = Inr st \<and>
      entries pkg ! 3 = (''Metadata/project_settings.config'',
         createProjectSettingsConfig sampleRuntime (materials st) (mergeConfig noOverrides)))\<close>
proof -
  note inst = centering_applied_once_at_emission [where e = identityMatrix and shift = "Vector3 127 127 (- 1)"
      and L = sampleRuntime and fuel = 6 and object = sampleScene and printJobConfig = noOverrides
      and item = "\<lparr> b_objectId = 3, transformMatrix = identityMatrix \<rparr>"]
  from inst
  have "itemTransform identityMatrix (Vector3 127 127 (- 1)) =
     take 9 (componentTransform identityMatrix) @
       [identityMatrix 12 + vx (Vector3 127 127 (- 1)), identityMatrix 13 + vy (Vector3 127 127 (- 1)),
        identityMatrix 14 + vz (Vector3 127 127 (- 1))]"
    by (rule conjunct1)
  then have r: "itemTransform identityMatrix (Vector3 127 127 (- 1)) = [1, 0, 0, 0, 1, 0, 0, 0, 1, 127, 127, - 1]"
    by (simp add: componentTransform_def identityMatrix_def)
  let ?item = "\<lparr> b_objectId = 3, transformMatrix = identityMatrix \<rparr>"
  have x: \<open>itemXML sampleRuntime (Vector3 127 127 (- 1)) ?item =
     ''<item objectid="'' @ str_of_int (b_objectId ?item) @ ''" transform="''
       @ join '' '' (map (toFixed5 sampleRuntime)
           [transformMatrix ?item 0, transformMatrix ?item 1, transformMatrix ?item 2,
            transformMatrix ?item 4, transformMatrix ?item 5, transformMatrix ?item 6,
            transformMatrix ?item 8, transformMatrix ?item 9, transformMatrix ?item 10,
            transformMatrix ?item 12 + vx (Vector3 127 127 (- 1)), transformMatrix ?item 13 + vy (Vector3 127 127 (- 1)),
            transformMatrix ?item 14 + vz (Vector3 127 127 (- 1))])
       @ ''" printable="1" />''\<close>
    by (rule inst [THEN conjunct2, THEN conjunct2, THEN conjunct2, THEN conjunct2, THEN conjunct1])
  have y: \<open>''<item objectid="'' @ str_of_int (b_objectId ?item) @ ''" transform="''
       @ join '' '' (map (toFixed5 sampleRuntime)
           [transformMatrix ?item 0, transformMatrix ?item 1, transformMatrix ?item 2,
            transformMatrix ?item 4, transformMatrix ?item 5, transformMatrix ?item 6,
            transformMatrix ?item 8, transformMatrix ?item 9, transformMatrix ?item 10,
            transformMatrix ?item 12 + vx (Vector3 127 127 (- 1)), transformMatrix ?item 13 + vy (Vector3 127 127 (- 1)),
            transformMatrix ?item 14 + vz (Vector3 127 127 (- 1))])
       @ ''" printable="1" />'' =
     ''<item objectid="3" transform="1.00000 0.00000 0.00000 0.00000 1.00000 0.00000 0.00000 0.00000 1.00000 127.00000 127.00000 -1.00000" printable="1" />''\<close>
    by code_simp
  have xml: \<open>itemXML sampleRuntime (Vector3 127 127 (- 1)) ?item =
     ''<item objectid="3" transform="1.00000 0.00000 0.00000 0.00000 1.00000 0.00000 0.00000 0.00000 1.00000 127.00000 127.00000 -1.00000" printable="1" />''\<close>
    using x y by (rule trans)
  have "wellFormedScene sampleScene" "nodeCount sampleScene \<le> 6" by code_simp+
  then obtain pkg where pkg: "exportTo3MF sampleRuntime 6 sampleScene noOverrides = Inr pkg"
    using exportTo3MF_total by blast
  with inst
  obtain st m s where st: "composeScene sampleRuntime 6 sampleScene = Inr st"
    and en: "entries pkg =
           [(''_rels/.rels'', relationshipsXML),
            (''3D/3dmodel.model'', m),
            (''Metadata/model_settings.config'', s),
            (''Metadata/project_settings.config'',
               createProjectSettingsConfig sampleRuntime (materials st) (mergeConfig noOverrides)),
            (''[Content_Types].xml'', contentTypesXML)]"
    by blast
  from en have e3: "entries pkg ! 3 = (''Metadata/project_settings.config'',
         createProjectSettingsConfig sampleRuntime (materials st) (mergeConfig noOverrides))"
    by simp
  have ex: "\<exists>pkg st. exportTo3MF sampleRuntime 6 sampleScene noOverrides = Inr pkg \<and>
      composeScene sampleRuntime 6 sampleScene = Inr st \<and>
      entries pkg ! 3 = (''Metadata/project_settings.config'',
         createProjectSettingsConfig sampleRuntime (materials st) (mergeConfig noOverrides))"
    by (rule exI [of _ pkg], rule exI [of _ st]) (intro conjI, fact pkg, fact st, fact e3)
  show ?thesis by (intro conjI) (fact r, fact xml, fact ex)
qed

lemma padColors_eq: "padColors colors = colors @ replicate (2 - length colors) ''#FFFFFF''"
proof (induction colors rule: padColors.induct)
  case (1 colors)
  show ?case
  proof (cases "length colors < 2")
    case True
    then have "2 - length colors = Suc (2 - length (colors @ [''#FFFFFF'']))" by simp
    with "1.IH" [OF True] True show ?thesis
      by (subst padColors.simps) (simp add: replicate_app_Cons_same)
  next
    case False
    then show ?thesis by (subst padColors.simps) simp
  qed
qed

text \<open>
  Claim C7, as the code has it. The list \<open>materials\<close> is not padded: the export of a single
  red mesh returns a package whose project settings are serialized from a material list
  of one entry.
\<close>

theorem material_list_padded_counterexample:
  "\<exists>pkg st. exportTo3MF sampleRuntime 2 squareMesh noOverrides = Inr pkg \<and>
     composeScene sampleRuntime 2 squareMesh = Inr st \<and>
     entries pkg ! 3 = (''Metadata/project_settings.config'',
        createProjectSettingsConfig sampleRuntime (materials st) (mergeConfig noOverrides)) \<and>
     length (materials st) = 1 \<and>
     \<not> 2 \<le> length (materials st)"
proof -
  have "wellFormedScene squareMesh" "nodeCount squareMesh \<le> 2" by code_simp+
  then obtain pkg where pkg: "exportTo3MF sampleRuntime 2 squareMesh noOverrides = Inr pkg"
    using exportTo3MF_total by blast
  from pkg obtain st where st: "composeScene sampleRuntime 2 squareMesh = Inr st"
    and e: "entries pkg ! 3 = (''Metadata/project_settings.config'',
        createProjectSettingsConfig sampleRuntime (materials st) (mergeConfig noOverrides))"
    by (rule exportTo3MF_Inr) simp
  have c: "length (materials (projr (composeScene sampleRuntime 2 squareMesh))) = 1" by code_simp
  with st have l: "length (materials st) = 1" by simp
  then have n: "\<not> 2 \<le> length (materials st)" by simp
  have X: "exportTo3MF sampleRuntime 2 squareMesh noOverrides = Inr pkg \<and>
     composeScene sampleRuntime 2 squareMesh = Inr st \<and>
     entries pkg ! 3 = (''Metadata/project_settings.config'',
        createProjectSettingsConfig sampleRuntime (materials st) (mergeConfig noOverrides)) \<and>
     length (materials st) = 1 \<and>
     \<not> 2 \<le> length (materials st)"
    by (intro conjI) (fact pkg, fact st, fact e, fact l, fact n)
  show ?thesis by (rule exI [of _ pkg], rule exI [of _ st]) (rule X)
qed

text \<open>
  Claim C7, amended. What is padded is the list of colours, a fresh list made from the
  materials: the settings object lists the colours of the materials in order, followed by
  \<^verbatim>\<open>'#FFFFFF'\<close> until there are two, so at least two; the three per-extruder arrays have
  one slot per colour; and the document is the serialization of that object. The material
  list itself stays as it is.
\<close>

theorem filament_colours_padded:
  "createProjectSettingsConfig L mats printConfig = JSON_stringify L (projectSettings L mats printConfig) \<and>
   filament_colour (projectSettings L mats printConfig) =
     materialColors L mats @ replicate (2 - length mats) ''#FFFFFF'' \<and>
   2 \<le> length (filament_colour (projectSettings L mats printConfig)) \<and>
   length (filament_colour (projectSettings L mats printConfig)) = max 2 (length mats) \<and>
   filament_settings_id (projectSettings L mats printConfig) =
     replicate (length (filament_colour (projectSettings L mats printConfig))) (filament printConfig) \<and>
   filament_diameter (projectSettings L mats printConfig) =
     replicate (length (filament_colour (projectSettings L mats printConfig))) ''1.75'' \<and>
   filament_is_support (projectSettings L mats printConfig) =
     replicate (length (filament_colour (projectSettings L mats printConfig))) ''0''"
proof -
  have c: "filament_colour (projectSettings L mats printConfig) =
     materialColors L mats @ replicate (2 - length mats) ''#FFFFFF''"
    by (simp add: projectSettings_def Let_def padColors_eq materialColors_def)
  then have l: "length (filament_colour (projectSettings L mats printConfig)) = max 2 (length mats)"
    by (simp add: materialColors_def)
  have rest: "createProjectSettingsConfig L mats printConfig = JSON_stringify L (projectSettings L mats printConfig)"
    "filament_settings_id (projectSettings L mats printConfig) =
       replicate (length (filament_colour (projectSettings L mats printConfig))) (filament printConfig)"
    "filament_diameter (projectSettings L mats printConfig) =
       replicate (length (filament_colour (projectSettings L mats printConfig))) ''1.75''"
    "filament_is_support (projectSettings L mats printConfig) =
       replicate (length (filament_colour (projectSettings L mats printConfig))) ''0''"
    by (simp_all add: createProjectSettingsConfig_def projectSettings_def Let_def)
  from c l rest show ?thesis by simp
qed

theorem filament_colours_padded_witness:
  "filament_colour (projectSettings sampleRuntime [] defaultPrintConfig) = [''#FFFFFF'', ''#FFFFFF''] \<and>
   filament_diameter (projectSettings sampleRuntime [] defaultPrintConfig) = [''1.75'', ''1.75'']"
proof -
  from filament_colours_padded [of sampleRuntime "[]" defaultPrintConfig]
  have "filament_colour (projectSettings sampleRuntime [] defaultPrintConfig) =
     materialColors sampleRuntime [] @ replicate (2 - length ([] :: MaterialInfo list)) ''#FFFFFF''"
    and "filament_diameter (projectSettings sampleRuntime [] defaultPrintConfig) =
     replicate (length (filament_colour (projectSettings sampleRuntime [] defaultPrintConfig))) ''1.75''"
    by blast+
  then show ?thesis by (simp add: materialColors_def numeral_2_eq_2)
qed

text \<open>
  Claim C9. In every returned package the five entries are written in this order: the
  relationships descriptor, the main model, the model settings, the project settings and,
  last, \<^verbatim>\<open>[Content_Types].xml\<close>; so the content-types descriptor is the last entry and
  not the first.
\<close>

theorem content_types_written_last:
  "exportTo3MF L fuel object printJobConfig = Inr pkg \<Longrightarrow>
     map fst (entries pkg) =
       [''_rels/.rels'', ''3D/3dmodel.model'', ''Metadata/model_settings.config'',
        ''Metadata/project_settings.config'', ''[Content_Types].xml''] \<and>
     fst (hd (entries pkg)) \<noteq> ''[Content_Types].xml'' \<and>
     last (entries pkg) = (''[Content_Types].xml'', contentTypesXML)"
  by (erule exportTo3MF_Inr) simp

theorem content_types_written_last_witness:
  "\<exists>pkg. exportTo3MF sampleRuntime 6 sampleScene noOverrides = Inr pkg \<and>
     map fst (entries pkg) =
       [''_rels/.rels'', ''3D/3dmodel.model'', ''Metadata/model_settings.config'',
        ''Metadata/project_settings.config'', ''[Content_Types].xml''] \<and>
     last (entries pkg) = (''[Content_Types].xml'', contentTypesXML)"
proof -
  have "wellFormedScene sampleScene" "nodeCount sampleScene \<le> 6" by code_simp+
  then obtain pkg where pkg: "exportTo3MF sampleRuntime 6 sampleScene noOverrides = Inr pkg"
    using exportTo3MF_total by blast
  note r = content_types_written_last [OF pkg]
  have X: "exportTo3MF sampleRuntime 6 sampleScene noOverrides = Inr pkg \<and>
     map fst (entries pkg) =
       [''_rels/.rels'', ''3D/3dmodel.model'', ''Metadata/model_settings.config'',
        ''Metadata/project_settings.config'', ''[Content_Types].xml''] \<and>
     last (entries pkg) = (''[Content_Types].xml'', contentTypesXML)"
    using pkg conjunct1 [OF r] conjunct2 [OF conjunct2 [OF r]] by (intro conjI)
  show ?thesis by (rule exI [of _ pkg]) (rule X)
qed

end
